theory Spec2Isabelle
  imports Main
begin

section \<open>JSON values\<close>

text \<open>
  The engine of \<^verbatim>\<open>src/acid-engine.ts\<close> passes documents, patches and log images
  around as JavaScript values of type \<^verbatim>\<open>any\<close>. They are the values
  \<^verbatim>\<open>JSON.parse\<close> produces, plus \<^verbatim>\<open>undefined\<close> for an omitted argument, an absent
  field or a missing property; \<open>JUndefined\<close> never occurs inside an array or an object.
  Numbers are integers here: the engine never computes with them. An object is the list
  of its own properties in insertion order (the reordering JavaScript applies to
  integer-like property names is not modelled); its prototype is \<^verbatim>\<open>Object.prototype\<close>,
  as for every object \<^verbatim>\<open>JSON.parse\<close> or an object literal creates.
\<close>

datatype jsval =
    JUndefined
  | JNull
  | JBool bool
  | JNum int
  | JStr string
  | JArr "jsval list"
  | JObj "(string \<times> jsval) list"

datatype error =
    InvalidTransaction
  | TransactionNotFound
  | ReadFailed
  | WalFlushFailed
  | CommitFailed
  | LockTimeout
  | TypeError

text \<open>JavaScript's truthiness, as \<^verbatim>\<open>||\<close> and \<^verbatim>\<open>!\<close> test it.\<close>

fun truthy :: "jsval \<Rightarrow> bool" where
  "truthy JUndefined = False"
| "truthy JNull = False"
| "truthy (JBool b) = b"
| "truthy (JNum n) = (n \<noteq> 0)"
| "truthy (JStr s) = (s \<noteq> [])"
| "truthy (JArr xs) = True"
| "truthy (JObj ps) = True"

text \<open>The expression \<^verbatim>\<open>v || {}\<close>.\<close>

definition orEmpty :: "jsval \<Rightarrow> jsval" where
  "orEmpty v = (if truthy v then v else JObj [])"

text \<open>
  \<^verbatim>\<open>typeof v === 'object' && v !== null && !Array.isArray(v)\<close>, the test
  \<^verbatim>\<open>deepMerge\<close> applies to both \<^verbatim>\<open>source[key]\<close> and \<^verbatim>\<open>target[key]\<close>.
\<close>

fun isPlainObject :: "jsval \<Rightarrow> bool" where
  "isPlainObject (JObj ps) = True"
| "isPlainObject v = False"

text \<open>Array indices as property names: the decimal numeral of the index.\<close>

function decimal :: "nat \<Rightarrow> string" where
  "decimal n =
     (if n < 10 then [char_of (48 + n)]
      else decimal (n div 10) @ [char_of (48 + n mod 10)])"
  by pat_completeness auto
termination
  by (relation "measure id") auto

declare decimal.simps [simp del]

fun indexed :: "nat \<Rightarrow> 'a list \<Rightarrow> (string \<times> 'a) list" where
  "indexed i [] = []"
| "indexed i (x # xs) = (decimal i, x) # indexed (Suc i) xs"

text \<open>
  The own enumerable properties that the spread \<^verbatim>\<open>{ ...target }\<close> copies: those of an
  object, the elements of an array under their indices, the characters of a string under
  theirs, and nothing for the other values.
\<close>

fun spread :: "jsval \<Rightarrow> (string \<times> jsval) list" where
  "spread (JObj ps) = ps"
| "spread (JArr xs) = indexed 0 xs"
| "spread (JStr s) = indexed 0 (map (\<lambda>c. JStr [c]) s)"
| "spread v = []"

fun ownLength :: "jsval \<Rightarrow> nat option" where
  "ownLength (JArr xs) = Some (length xs)"
| "ownLength (JStr s) = Some (length s)"
| "ownLength v = None"

text \<open>
  The property read \<^verbatim>\<open>target[key]\<close>. On \<^verbatim>\<open>null\<close> and \<^verbatim>\<open>undefined\<close> JavaScript
  raises a TypeError; a missing property reads as \<^verbatim>\<open>undefined\<close>. A name found on
  the prototype only reads as \<^verbatim>\<open>undefined\<close> here as well: \<^verbatim>\<open>deepMerge\<close> does nothing
  with the value read but test it, and the methods of the prototypes, being functions,
  fail that test as \<^verbatim>\<open>undefined\<close> does. The one exception is \<^verbatim>\<open>__proto__\<close>, which
  reads as the prototype object and is assigned through a setter that replaces the
  prototype: objects with another prototype are not values of this model, and the
  statements about \<^verbatim>\<open>deepMerge\<close> are made for sources that are \<open>protoFree\<close>.
\<close>

fun getProp :: "jsval \<Rightarrow> string \<Rightarrow> error + jsval" where
  "getProp JNull k = Inl TypeError"
| "getProp JUndefined k = Inl TypeError"
| "getProp v k =
     Inr (case map_of (spread v) k of
            Some x \<Rightarrow> x
          | None \<Rightarrow>
              (case ownLength v of
                 Some n \<Rightarrow> if k = ''length'' then JNum (int n) else JUndefined
               | None \<Rightarrow> JUndefined))"

text \<open>The assignment \<^verbatim>\<open>result[key] = v\<close>: in place for a property that exists, appended otherwise.\<close>

fun assign :: "(string \<times> jsval) list \<Rightarrow> string \<Rightarrow> jsval \<Rightarrow> (string \<times> jsval) list" where
  "assign [] k v = [(k, v)]"
| "assign ((k', v') # ps) k v =
     (if k' = k then (k, v) # ps else (k', v') # assign ps k v)"

text \<open>
  The call \<^verbatim>\<open>source.hasOwnProperty(key)\<close> of the loop (line 785). An own property
  of the source named \<^verbatim>\<open>hasOwnProperty\<close> shadows the method of
  \<^verbatim>\<open>Object.prototype\<close>; its value is a JSON value, which is not callable, and the call
  raises a TypeError. Otherwise the method tells whether the key is an own property.
\<close>

definition hasOwnProperty :: "jsval \<Rightarrow> string \<Rightarrow> error + bool" where
  "hasOwnProperty source k =
     (case map_of (spread source) ''hasOwnProperty'' of
        Some f \<Rightarrow> Inl TypeError
      | None \<Rightarrow> Inr (map_of (spread source) k \<noteq> None))"

text \<open>
  \<^verbatim>\<open>ACIDStorageEngine.deepMerge\<close> (lines 773-796). \<open>mergeKeys\<close> is its
  \<^verbatim>\<open>for (const key in source)\<close> loop over the properties of the source that are still
  to be visited, with \<open>result\<close> the object under construction. The test on
  \<^verbatim>\<open>target[key]\<close> is evaluated only after the one on \<^verbatim>\<open>source[key]\<close> has succeeded,
  so that a \<^verbatim>\<open>null\<close> target raises only when the source holds an object.
\<close>

fun deepMerge :: "jsval \<Rightarrow> jsval \<Rightarrow> error + jsval"
  and mergeKeys :: "jsval \<Rightarrow> jsval \<Rightarrow> (string \<times> jsval) list \<Rightarrow> (string \<times> jsval) list
                    \<Rightarrow> error + (string \<times> jsval) list" where
  "deepMerge target JNull = Inr target"
| "deepMerge target JUndefined = Inr target"
| "deepMerge target (JObj ps) =
     (case mergeKeys target (JObj ps) (spread target) ps of
        Inl e \<Rightarrow> Inl e
      | Inr r \<Rightarrow> Inr (JObj r))"
| "deepMerge target (JBool b) = Inr (JBool b)"
| "deepMerge target (JNum n) = Inr (JNum n)"
| "deepMerge target (JStr s) = Inr (JStr s)"
| "deepMerge target (JArr xs) = Inr (JArr xs)"
| "mergeKeys target source result [] = Inr result"
| "mergeKeys target source result ((k, sv) # ps) =
     (case hasOwnProperty source k of
        Inl e \<Rightarrow> Inl e
      | Inr own \<Rightarrow>
          if own then
            (if isPlainObject sv then
               (case getProp target k of
                  Inl e \<Rightarrow> Inl e
                | Inr tv \<Rightarrow>
                    if isPlainObject tv then
                      (case deepMerge tv sv of
                         Inl e \<Rightarrow> Inl e
                       | Inr m \<Rightarrow> mergeKeys target source (assign result k m) ps)
                    else mergeKeys target source (assign result k sv) ps)
             else mergeKeys target source (assign result k sv) ps)
          else mergeKeys target source result ps)"

text \<open>
  No object met when descending from the value through properties has an own property
  named \<^verbatim>\<open>__proto__\<close> (arrays are not entered: \<^verbatim>\<open>deepMerge\<close> copies them whole).
\<close>

fun protoFree :: "jsval \<Rightarrow> bool"
  and protoFreeProps :: "(string \<times> jsval) list \<Rightarrow> bool" where
  "protoFree (JObj ps) = protoFreeProps ps"
| "protoFree JUndefined = True"
| "protoFree JNull = True"
| "protoFree (JBool b) = True"
| "protoFree (JNum n) = True"
| "protoFree (JStr s) = True"
| "protoFree (JArr xs) = True"
| "protoFreeProps [] = True"
| "protoFreeProps ((k, v) # ps) = (k \<noteq> ''__proto__'' \<and> protoFree v \<and> protoFreeProps ps)"

section \<open>deepMerge on objects in a store\<close>

text \<open>
  JavaScript objects are mutable and passed by reference. To state what \<^verbatim>\<open>deepMerge\<close>
  does to the objects it is given, it is modelled a second time on a store: a list of
  cells, the address of a cell being its index.
\<close>

text \<open>
  A JavaScript value as the program holds it: a primitive, or a reference to an object or
  an array in the store.
\<close>

datatype ref = VUndefined | VNull | VBool bool | VNum int | VStr string | VRef nat

datatype cell = ObjectCell "(string \<times> ref) list" | ArrayCell "ref list"

type_synonym heap = "cell list"






text \<open>
  The assignment \<^verbatim>\<open>result[key] = v\<close> on the object at an address: the one place
  where \<^verbatim>\<open>deepMerge\<close> writes to the store.
\<close>

fun assignH :: "(string \<times> ref) list \<Rightarrow> string \<Rightarrow> ref \<Rightarrow> (string \<times> ref) list" where
  "assignH [] k v = [(k, v)]"
| "assignH ((k', v') # ps) k v =
     (if k' = k then (k, v) # ps else (k', v') # assignH ps k v)"

definition setProp :: "heap \<Rightarrow> nat \<Rightarrow> string \<Rightarrow> ref \<Rightarrow> heap" where
  "setProp h a k v =
     (case h ! a of
        ObjectCell ps \<Rightarrow> h[a := ObjectCell (assignH ps k v)]
      | ArrayCell xs \<Rightarrow> h)"




section \<open>The write-ahead log\<close>

datatype operation = BEGIN | WRITE | DELETE | COMMIT | ROLLBACK | CHECKPOINT

text \<open>
  \<^verbatim>\<open>interface LogEntry\<close>. The timestamp (informational) and the SHA-256 checksum are
  not fields here: what the checksum decides is recorded on each line of the log file
  below. \<open>key\<close> is \<open>None\<close> and an image is \<open>JUndefined\<close> where the entry
  has no such field. LSNs are integers; the numbers of the engine are exact on them up to
  2 to the power 53, where \<^verbatim>\<open>currentLSN++\<close> stops advancing, and the log is modelled
  below that bound.
\<close>

record LogEntry =
  lsn :: int
  transactionId :: string
  operation :: operation
  key :: "string option"
  beforeImage :: jsval
  afterImage :: jsval

text \<open>
  A line of the file \<^verbatim>\<open>.wal\<close>: one that parses and passes \<^verbatim>\<open>verifyChecksum\<close>, one
  that parses and fails it, and one on which \<^verbatim>\<open>JSON.parse\<close> throws. The line that a
  flush writes for an entry parses back to that entry and passes the check: the images
  are JSON values.
\<close>

datatype wal_line = Valid LogEntry | BadChecksum LogEntry | Unparsable

text \<open>
  \<^verbatim>\<open>class WriteAheadLog\<close>. \<open>logFile\<close> is the content of \<^verbatim>\<open>.wal\<close>, \<open>None\<close>
  while the file does not exist. The last three fields are the file system as the log
  meets it: \<open>unreadable\<close> tells whether \<^verbatim>\<open>readFileSync\<close> throws on \<^verbatim>\<open>.wal\<close>, a
  condition that no call of the engine changes; \<open>overLimit\<close> is the test
  \<^verbatim>\<open>statSync(logPath).size > LOG_FILE_SIZE_LIMIT\<close> on a content; and
  \<open>flushFaults\<close> tells for each coming flush whether its write to the file throws
  (no fault once the list is used up).
\<close>

record WriteAheadLog =
  currentLSN :: int
  logBuffer :: "LogEntry list"
  logFile :: "wal_line list option"
  unreadable :: bool
  overLimit :: "wal_line list \<Rightarrow> bool"
  flushFaults :: "bool list"

definition BUFFER_SIZE :: nat where
  "BUFFER_SIZE = 100"

text \<open>The entries a scan of the file accepts: lines that parse and verify.\<close>

fun verified :: "wal_line list \<Rightarrow> LogEntry list" where
  "verified [] = []"
| "verified (Valid e # ls) = e # verified ls"
| "verified (l # ls) = verified ls"

fun parsed :: "wal_line \<Rightarrow> LogEntry option" where
  "parsed (Valid e) = Some e"
| "parsed (BadChecksum e) = Some e"
| "parsed Unparsable = None"

definition fileEntries :: "WriteAheadLog \<Rightarrow> LogEntry list" where
  "fileEntries w = (case logFile w of None \<Rightarrow> [] | Some ls \<Rightarrow> verified ls)"

text \<open>
  \<^verbatim>\<open>recoverFromLog\<close> (lines 42-63), from the value \<open>cur\<close> of \<^verbatim>\<open>currentLSN\<close>:
  the maximum over the verified entries, then \<^verbatim>\<open>currentLSN++\<close>; 1 when reading the
  file throws.
\<close>

definition recoverFromLog :: "bool \<Rightarrow> wal_line list \<Rightarrow> int \<Rightarrow> int" where
  "recoverFromLog readThrows ls cur =
     (if readThrows then 1
      else foldl (\<lambda>c e. max c (lsn e)) cur (verified ls) + 1)"

text \<open>
  The constructor with \<^verbatim>\<open>initializeWAL\<close> (lines 26-40): the field initialiser
  \<^verbatim>\<open>currentLSN = 0\<close>, and \<^verbatim>\<open>recoverFromLog\<close> only if the file exists. The first
  argument is the condition of the file that the log is opened on.
\<close>

definition initializeWAL ::
  "bool \<Rightarrow> (wal_line list \<Rightarrow> bool) \<Rightarrow> bool list \<Rightarrow> wal_line list option \<Rightarrow> WriteAheadLog" where
  "initializeWAL readThrows limit faults file =
     \<lparr> currentLSN = (case file of None \<Rightarrow> 0 | Some ls \<Rightarrow> recoverFromLog readThrows ls 0),
       logBuffer = [],
       logFile = file,
       unreadable = readThrows,
       overLimit = limit,
       flushFaults = faults \<rparr>"

text \<open>
  The first half of \<^verbatim>\<open>writeLog\<close> (lines 77-91): take the LSN with
  \<^verbatim>\<open>this.currentLSN++\<close> and push the entry on the buffer.
\<close>

definition pushLog :: "WriteAheadLog \<Rightarrow> LogEntry \<Rightarrow> int \<times> WriteAheadLog" where
  "pushLog w e =
     (currentLSN w,
      w\<lparr> currentLSN := currentLSN w + 1,
         logBuffer := logBuffer w @ [e\<lparr> lsn := currentLSN w \<rparr>] \<rparr>)"

definition checkpointEntry :: LogEntry where
  "checkpointEntry =
     \<lparr> lsn = 0, transactionId = ''SYSTEM'', operation = CHECKPOINT, key = None,
       beforeImage = JUndefined, afterImage = JUndefined \<rparr>"

text \<open>
  \<^verbatim>\<open>rotateLog\<close> (lines 136-151): the archive copy is not part of the state, and
  its two writes succeed; the log file is emptied and a CHECKPOINT is written, unless
  reading the file throws, which the \<^verbatim>\<open>catch\<close> swallows. \<^verbatim>\<open>rotateLog\<close> runs only
  from \<^verbatim>\<open>flushBuffer\<close>, right after the buffer was cleared, so its \<^verbatim>\<open>writeLog\<close>
  neither finds 100 buffered entries nor flushes: it is \<open>pushLog\<close>.
\<close>

definition rotateLog :: "WriteAheadLog \<Rightarrow> WriteAheadLog" where
  "rotateLog w =
     (if unreadable w then w
      else snd (pushLog (w\<lparr> logFile := Some [] \<rparr>) checkpointEntry))"

definition checkLogRotation :: "WriteAheadLog \<Rightarrow> WriteAheadLog" where
  "checkLogRotation w =
     (case logFile w of
        None \<Rightarrow> w
      | Some ls \<Rightarrow> if overLimit w ls then rotateLog w else w)"

text \<open>
  The content \<^verbatim>\<open>flushBuffer\<close> writes to the file (lines 106-114): what the file
  holds, if it exists, followed by the buffered entries.
\<close>

definition flushContent :: "WriteAheadLog \<Rightarrow> wal_line list" where
  "flushContent w =
     (case logFile w of None \<Rightarrow> [] | Some ls \<Rightarrow> ls) @ map Valid (logBuffer w)"

text \<open>
  \<^verbatim>\<open>flushBuffer\<close> (lines 102-123). \<open>Some WalFlushFailed\<close> is the rethrown
  \<^verbatim>\<open>Failed to flush WAL\<close>, after the read of an existing file or the write has
  thrown; the buffer is then kept.
\<close>

definition flushBuffer :: "WriteAheadLog \<Rightarrow> error option \<times> WriteAheadLog" where
  "flushBuffer w =
     (if logBuffer w = [] then (None, w)
      else if logFile w \<noteq> None \<and> unreadable w then (Some WalFlushFailed, w)
      else
        (case flushFaults w of
           True # rest \<Rightarrow> (Some WalFlushFailed, w\<lparr> flushFaults := rest \<rparr>)
         | _ \<Rightarrow>
             (None,
              checkLogRotation
                (w\<lparr> logFile := Some (flushContent w),
                    logBuffer := [],
                    flushFaults := tl (flushFaults w) \<rparr>))))"

text \<open>\<^verbatim>\<open>writeLog\<close> (lines 76-100); the LSN it sets overrides the one of its argument.\<close>

definition writeLog :: "WriteAheadLog \<Rightarrow> LogEntry \<Rightarrow> (error + int) \<times> WriteAheadLog" where
  "writeLog w e =
     (case pushLog w e of
        (l, w1) \<Rightarrow>
          if operation e = COMMIT \<or> operation e = ROLLBACK
             \<or> BUFFER_SIZE \<le> length (logBuffer w1)
          then (case flushBuffer w1 of
                  (Some err, w2) \<Rightarrow> (Inl err, w2)
                | (None, w2) \<Rightarrow> (Inr l, w2))
          else (Inr l, w1))"

text \<open>
  The filter \<^verbatim>\<open>!fromLSN || entry.lsn >= fromLSN\<close>: an omitted bound and the bound 0
  both let every entry through.
\<close>

fun fromBound :: "int option \<Rightarrow> LogEntry \<Rightarrow> bool" where
  "fromBound None e = True"
| "fromBound (Some n) e = (n = 0 \<or> n \<le> lsn e)"

text \<open>
  \<^verbatim>\<open>getLogEntries\<close> (lines 153-186): the buffered entries, then the verified entries
  of the file, sorted by LSN (\<^verbatim>\<open>Array.prototype.sort\<close> is stable, as \<open>sort_key\<close> is).
  When reading the file throws, the \<^verbatim>\<open>catch\<close> returns the empty list, without the
  buffered entries.
\<close>

definition getLogEntries :: "WriteAheadLog \<Rightarrow> int option \<Rightarrow> LogEntry list" where
  "getLogEntries w fromLSN =
     (if logFile w \<noteq> None \<and> unreadable w then []
      else sort_key lsn
             (filter (fromBound fromLSN) (logBuffer w)
              @ filter (fromBound fromLSN) (fileEntries w)))"

text \<open>
  \<^verbatim>\<open>clearCommittedTransaction\<close> (lines 196-245). An error of the flush or of the
  read is swallowed by the surrounding \<^verbatim>\<open>try\<close>. Lines are kept when they do not
  parse, belong to another transaction or are a COMMIT; the checksum is not consulted.
\<close>

definition keepLine :: "string \<Rightarrow> wal_line \<Rightarrow> bool" where
  "keepLine txn l =
     (case parsed l of
        None \<Rightarrow> True
      | Some e \<Rightarrow> transactionId e \<noteq> txn \<or> operation e = COMMIT)"

definition commitLine :: "string \<Rightarrow> wal_line \<Rightarrow> bool" where
  "commitLine txn l =
     (case parsed l of
        None \<Rightarrow> False
      | Some e \<Rightarrow> transactionId e = txn \<and> operation e = COMMIT)"

definition clearCommittedTransaction :: "WriteAheadLog \<Rightarrow> string \<Rightarrow> WriteAheadLog" where
  "clearCommittedTransaction w txn =
     (case flushBuffer w of
        (Some err, w1) \<Rightarrow> w1
      | (None, w1) \<Rightarrow>
          (case logFile w1 of
             None \<Rightarrow> w1
           | Some ls \<Rightarrow>
               if unreadable w1 then w1
               else if list_ex (commitLine txn) ls
               then w1\<lparr> logFile := Some (filter (keepLine txn) ls) \<rparr>
               else w1))"

section \<open>The lock manager\<close>

datatype lockType = Shared | Exclusive

record LockRequest =
  reqTransactionId :: string
  reqType :: lockType

record LockInfo =
  lockMode :: lockType
  holders :: "string set"
  waitQueue :: "LockRequest list"

type_synonym LockTable = "string \<rightharpoonup> LockInfo"

text \<open>\<^verbatim>\<open>canGrantLock\<close> (lines 314-331).\<close>

definition canGrantLock :: "LockInfo \<Rightarrow> lockType \<Rightarrow> string \<Rightarrow> bool" where
  "canGrantLock lockInfo requestedType txn =
     (if txn \<in> holders lockInfo then True
      else if holders lockInfo = {} then True
      else if lockMode lockInfo = Shared \<and> requestedType = Shared then True
      else False)"

text \<open>
  \<^verbatim>\<open>acquireLock\<close> (lines 263-312) up to the point where its promise is settled or
  left pending: \<open>True\<close> when the lock is granted at once, \<open>False\<close> when the request
  has joined the wait queue. The 30 s timer is not modelled; what it runs is
  \<open>removeLockRequest\<close>.
\<close>

definition acquireLock :: "LockTable \<Rightarrow> string \<Rightarrow> string \<Rightarrow> lockType \<Rightarrow> bool \<times> LockTable" where
  "acquireLock locks k txn requested =
     (case locks k of
        None \<Rightarrow>
          (True, locks(k \<mapsto> \<lparr> lockMode = requested, holders = {txn}, waitQueue = [] \<rparr>))
      | Some lockInfo \<Rightarrow>
          if canGrantLock lockInfo requested txn then
            (if requested = Shared \<and> lockMode lockInfo = Shared
             then (True, locks(k \<mapsto> lockInfo\<lparr> holders := insert txn (holders lockInfo) \<rparr>))
             else (True, locks(k \<mapsto> lockInfo\<lparr> lockMode := requested, holders := {txn} \<rparr>)))
          else
            (False,
             locks(k \<mapsto> lockInfo\<lparr> waitQueue := waitQueue lockInfo
                        @ [\<lparr> reqTransactionId = txn, reqType = requested \<rparr>] \<rparr>)))"

text \<open>
  \<^verbatim>\<open>processWaitQueue\<close> (lines 352-376) on one lock: the requests it resumes, and the
  lock afterwards.
\<close>

definition processWaitQueue :: "LockInfo \<Rightarrow> LockRequest list \<times> LockInfo" where
  "processWaitQueue lockInfo =
     (case waitQueue lockInfo of
        [] \<Rightarrow> ([], lockInfo)
      | firstRequest # queued \<Rightarrow>
          if reqType firstRequest = Shared then
            (let sharedRequests = takeWhile (\<lambda>r. reqType r = Shared) (waitQueue lockInfo)
             in (sharedRequests,
                 lockInfo\<lparr> lockMode := Shared,
                           holders := holders lockInfo \<union> set (map reqTransactionId sharedRequests),
                           waitQueue := dropWhile (\<lambda>r. reqType r = Shared) (waitQueue lockInfo) \<rparr>))
          else
            ([firstRequest],
             lockInfo\<lparr> lockMode := Exclusive,
                       holders := insert (reqTransactionId firstRequest) (holders lockInfo),
                       waitQueue := queued \<rparr>))"

text \<open>
  \<^verbatim>\<open>releaseLock\<close> (lines 333-350): the requests resumed by the release, and the lock
  table afterwards.
\<close>

definition releaseLock :: "LockTable \<Rightarrow> string \<Rightarrow> string \<Rightarrow> LockRequest list \<times> LockTable" where
  "releaseLock locks k txn =
     (case locks k of
        None \<Rightarrow> ([], locks)
      | Some lockInfo \<Rightarrow>
          if txn \<notin> holders lockInfo then ([], locks)
          else
            (let l1 = lockInfo\<lparr> holders := holders lockInfo - {txn} \<rparr>;
                 (resumed, l2) = (if holders l1 = {} \<and> waitQueue l1 \<noteq> []
                                  then processWaitQueue l1 else ([], l1))
             in if holders l2 = {} \<and> waitQueue l2 = []
                then (resumed, locks(k := None))
                else (resumed, locks(k \<mapsto> l2))))"

text \<open>\<^verbatim>\<open>removeLockRequest\<close> (lines 378-383), run when a waiting request times out.\<close>

definition removeLockRequest :: "LockTable \<Rightarrow> string \<Rightarrow> string \<Rightarrow> LockTable" where
  "removeLockRequest locks k txn =
     (case locks k of
        None \<Rightarrow> locks
      | Some lockInfo \<Rightarrow>
          locks(k \<mapsto> lockInfo\<lparr> waitQueue :=
                        filter (\<lambda>req. reqTransactionId req \<noteq> txn) (waitQueue lockInfo) \<rparr>))"

text \<open>
  \<^verbatim>\<open>releaseAllLocks\<close> (lines 385-400). The loop visits every lock of the table, and
  what it does at one key touches that key's lock only, so the table afterwards is given
  key by key: \<^verbatim>\<open>releaseLock\<close> if the transaction holds the lock, then the wait queue
  without the transaction's requests (on a lock that \<^verbatim>\<open>releaseLock\<close> has just deleted
  from the table, the filter changes an object no one refers to any more).
\<close>

definition releaseAllLocks :: "LockTable \<Rightarrow> string \<Rightarrow> LockTable" where
  "releaseAllLocks locks txn =
     (\<lambda>k. case locks k of
             None \<Rightarrow> None
           | Some lockInfo \<Rightarrow>
               (let locks1 = (if txn \<in> holders lockInfo
                              then snd (releaseLock locks k txn) else locks)
                in case locks1 k of
                     None \<Rightarrow> None
                   | Some l1 \<Rightarrow>
                       Some (l1\<lparr> waitQueue :=
                                  filter (\<lambda>req. reqTransactionId req \<noteq> txn) (waitQueue l1) \<rparr>)))"

section \<open>The storage engine\<close>

text \<open>
  A file of the data directory, as the engine reads it with
  \<^verbatim>\<open>content.trim() ? JSON.parse(content) : {}\<close>: blank, a file on which
  \<^verbatim>\<open>readFileSync\<close> or \<^verbatim>\<open>JSON.parse\<close> throws, or the text of a JSON value (what
  \<^verbatim>\<open>JSON.stringify(v, null, 2)\<close> writes parses back to \<open>v\<close>). The directory maps
  the path of a file to its content. Writes and removals of data files succeed; keys are
  taken as the wrapper's \<^verbatim>\<open>validateKey\<close> admits them, so that two keys never name the
  same file.
\<close>

datatype fileContent = Blank | Malformed | Document jsval

type_synonym dataDir = "string \<rightharpoonup> fileContent"

text \<open>\<^verbatim>\<open>join(this.dbPath, `${key}.json`)\<close>, relative to the database directory.\<close>

definition filePath :: "string \<Rightarrow> string" where
  "filePath k = k @ ''.json''"

datatype txStatus = Active | Committed | Aborted

datatype opKind = WriteOp | DeleteOp

record Transaction =
  startLSN :: int
  operations :: "(string \<times> opKind) list"
  status :: txStatus

record Engine =
  wal :: WriteAheadLog
  lockManager :: LockTable
  files :: dataDir
  activeTransactions :: "string \<rightharpoonup> Transaction"

text \<open>
  How a call of the engine ends: it returns, it throws, or its promise is still pending
  because the lock request waits in a queue.
\<close>

datatype 'a outcome = Done 'a | Failed error | Pending

subsection \<open>Crash recovery\<close>

text \<open>\<^verbatim>\<open>redoOperation\<close> (lines 479-488).\<close>

definition redoOperation :: "LogEntry \<Rightarrow> dataDir \<Rightarrow> dataDir" where
  "redoOperation entry fs =
     (case key entry of
        None \<Rightarrow> fs
      | Some k \<Rightarrow>
          if k = [] \<or> \<not> truthy (afterImage entry) then fs
          else fs(filePath k \<mapsto> Document (afterImage entry)))"

text \<open>\<^verbatim>\<open>redoDelete\<close> (lines 490-501).\<close>

definition redoDelete :: "LogEntry \<Rightarrow> dataDir \<Rightarrow> dataDir" where
  "redoDelete entry fs =
     (case key entry of
        None \<Rightarrow> fs
      | Some k \<Rightarrow> if k = [] then fs else fs(filePath k := None))"

text \<open>
  \<^verbatim>\<open>undoOperation\<close> (lines 503-526). For a WRITE whose before-image is absent,
  \<^verbatim>\<open>JSON.stringify\<close> yields \<^verbatim>\<open>undefined\<close>, \<^verbatim>\<open>writeFileSync\<close> throws on it and the
  \<^verbatim>\<open>catch\<close> swallows the error.
\<close>

definition undoOperation :: "LogEntry \<Rightarrow> dataDir \<Rightarrow> dataDir" where
  "undoOperation entry fs =
     (case key entry of
        None \<Rightarrow> fs
      | Some k \<Rightarrow>
          if k = [] then fs
          else if operation entry = WRITE then
            (if beforeImage entry = JNull then fs(filePath k := None)
             else if beforeImage entry = JUndefined then fs
             else fs(filePath k \<mapsto> Document (beforeImage entry)))
          else if operation entry = DELETE \<and> truthy (beforeImage entry) then
            fs(filePath k \<mapsto> Document (beforeImage entry))
          else fs)"

text \<open>\<^verbatim>\<open>performCrashRecovery\<close> (lines 444-477): analysis, redo, undo.\<close>

definition performCrashRecovery :: "WriteAheadLog \<Rightarrow> dataDir \<Rightarrow> dataDir" where
  "performCrashRecovery w fs =
     (let logEntries = getLogEntries w None;
          committedTransactions =
            set (map transactionId (filter (\<lambda>e. operation e = COMMIT) logEntries));
          abortedTransactions =
            set (map transactionId (filter (\<lambda>e. operation e = ROLLBACK) logEntries));
          redone =
            fold (\<lambda>entry d.
                    if operation entry = WRITE \<and> transactionId entry \<in> committedTransactions
                    then redoOperation entry d
                    else if operation entry = DELETE
                            \<and> transactionId entry \<in> committedTransactions
                    then redoDelete entry d
                    else d)
                 logEntries fs;
          uncommittedOps =
            rev (filter (\<lambda>entry.
                           (operation entry = WRITE \<or> operation entry = DELETE)
                           \<and> transactionId entry \<notin> committedTransactions
                           \<and> transactionId entry \<notin> abortedTransactions)
                        logEntries)
      in fold undoOperation uncommittedOps redone)"

subsection \<open>Transactions\<close>

definition logRecord :: "operation \<Rightarrow> string \<Rightarrow> string option \<Rightarrow> jsval \<Rightarrow> jsval \<Rightarrow> LogEntry" where
  "logRecord opn txn k before0 after0 =
     \<lparr> lsn = 0, transactionId = txn, operation = opn, key = k,
       beforeImage = before0, afterImage = after0 \<rparr>"

text \<open>
  \<^verbatim>\<open>beginTransaction\<close> (lines 529-544); the identifier that \<^verbatim>\<open>randomUUID()\<close> draws
  is an argument.
\<close>

definition beginTransaction :: "Engine \<Rightarrow> string \<Rightarrow> string outcome \<times> Engine" where
  "beginTransaction s txn =
     (case writeLog (wal s) (logRecord BEGIN txn None JUndefined JUndefined) of
        (Inl err, w) \<Rightarrow> (Failed err, s\<lparr> wal := w \<rparr>)
      | (Inr l, w) \<Rightarrow>
          (Done txn,
           s\<lparr> wal := w,
              activeTransactions := (activeTransactions s)
                (txn \<mapsto> \<lparr> startLSN = l, operations = [], status = Active \<rparr>) \<rparr>))"

text \<open>
  The entries \<^verbatim>\<open>write\<close> (lines 558-563) and \<^verbatim>\<open>read\<close> (lines 622-627) both select:
  the transaction's WRITE and DELETE entries for the key, from its start LSN on.
\<close>

definition transactionEntries :: "WriteAheadLog \<Rightarrow> Transaction \<Rightarrow> string \<Rightarrow> string \<Rightarrow> LogEntry list" where
  "transactionEntries w tx txn k =
     filter (\<lambda>entry. transactionId entry = txn \<and> key entry = Some k
                      \<and> (operation entry = WRITE \<or> operation entry = DELETE))
            (getLogEntries w (Some (startLSN tx)))"

text \<open>
  The block of \<^verbatim>\<open>write\<close> that computes \<^verbatim>\<open>currentData\<close> (lines 557-584): the
  transaction's latest pending effect on the key if it has one, else the file. A blank
  file and one that fails to parse both count as \<^verbatim>\<open>{}\<close>; only a missing file
  leaves \<^verbatim>\<open>null\<close>.
\<close>

definition currentData :: "Engine \<Rightarrow> string \<Rightarrow> Transaction \<Rightarrow> string \<Rightarrow> jsval" where
  "currentData s txn tx k =
     (let pending = transactionEntries (wal s) tx txn k
      in if pending \<noteq> [] then
           (let lastEntry = last pending
            in if operation lastEntry = DELETE then JNull
               else orEmpty (afterImage lastEntry))
         else
           (case files s (filePath k) of
              None \<Rightarrow> JNull
            | Some Blank \<Rightarrow> JObj []
            | Some Malformed \<Rightarrow> JObj []
            | Some (Document v) \<Rightarrow> v))"

text \<open>
  \<^verbatim>\<open>write\<close> after its lock is granted (lines 555-608): the \<^verbatim>\<open>try\<close> block, and the
  \<^verbatim>\<open>catch\<close> that releases the lock and rethrows. \<open>tx\<close> is the transaction object
  the call took from the registry. The before-image is \<^verbatim>\<open>currentData\<close>, the
  after-image \<^verbatim>\<open>deepMerge(currentData || {}, data)\<close>.
\<close>

definition writeGranted :: "Engine \<Rightarrow> string \<Rightarrow> Transaction \<Rightarrow> string \<Rightarrow> jsval \<Rightarrow> unit outcome \<times> Engine" where
  "writeGranted s txn tx k data =
     (let current = currentData s txn tx k
      in case deepMerge (orEmpty current) data of
           Inl err \<Rightarrow>
             (Failed err, s\<lparr> lockManager := snd (releaseLock (lockManager s) k txn) \<rparr>)
         | Inr after0 \<Rightarrow>
             (case writeLog (wal s) (logRecord WRITE txn (Some k) current after0) of
                (Inl err, w) \<Rightarrow>
                  (Failed err,
                   s\<lparr> wal := w, lockManager := snd (releaseLock (lockManager s) k txn) \<rparr>)
              | (Inr l, w) \<Rightarrow>
                  (Done (),
                   s\<lparr> wal := w,
                      activeTransactions := (activeTransactions s)
                        (txn \<mapsto> tx\<lparr> operations := operations tx @ [(k, WriteOp)] \<rparr>) \<rparr>)))"

text \<open>
  \<^verbatim>\<open>write\<close> (lines 546-609); the name carries a prime because \<open>write\<close> is a
  keyword of Isabelle.
\<close>

definition write' :: "Engine \<Rightarrow> string \<Rightarrow> string \<Rightarrow> jsval \<Rightarrow> unit outcome \<times> Engine" where
  "write' s txn k data =
     (case activeTransactions s txn of
        None \<Rightarrow> (Failed InvalidTransaction, s)
      | Some tx \<Rightarrow>
          if status tx \<noteq> Active then (Failed InvalidTransaction, s)
          else
            (case acquireLock (lockManager s) k txn Exclusive of
               (False, locks) \<Rightarrow> (Pending, s\<lparr> lockManager := locks \<rparr>)
             | (True, locks) \<Rightarrow> writeGranted (s\<lparr> lockManager := locks \<rparr>) txn tx k data))"

text \<open>
  \<^verbatim>\<open>read\<close> after its lock is granted (lines 620-650). Every error of the \<^verbatim>\<open>try\<close>
  block is rethrown as \<^verbatim>\<open>Read failed for ...\<close> once the lock is released.
\<close>

definition readGranted :: "Engine \<Rightarrow> string \<Rightarrow> Transaction \<Rightarrow> string \<Rightarrow> jsval outcome \<times> Engine" where
  "readGranted s txn tx k =
     (let pending = transactionEntries (wal s) tx txn k
      in if pending \<noteq> [] then
           (let lastEntry = last pending
            in if operation lastEntry = DELETE then (Done JNull, s)
               else (Done (orEmpty (afterImage lastEntry)), s))
         else
           (case files s (filePath k) of
              None \<Rightarrow> (Done JNull, s)
            | Some Blank \<Rightarrow> (Done (JObj []), s)
            | Some (Document v) \<Rightarrow> (Done v, s)
            | Some Malformed \<Rightarrow>
                (Failed ReadFailed,
                 s\<lparr> lockManager := snd (releaseLock (lockManager s) k txn) \<rparr>)))"

text \<open>\<^verbatim>\<open>read\<close> (lines 611-651).\<close>

definition read :: "Engine \<Rightarrow> string \<Rightarrow> string \<Rightarrow> jsval outcome \<times> Engine" where
  "read s txn k =
     (case activeTransactions s txn of
        None \<Rightarrow> (Failed InvalidTransaction, s)
      | Some tx \<Rightarrow>
          if status tx \<noteq> Active then (Failed InvalidTransaction, s)
          else
            (case acquireLock (lockManager s) k txn Shared of
               (False, locks) \<Rightarrow> (Pending, s\<lparr> lockManager := locks \<rparr>)
             | (True, locks) \<Rightarrow> readGranted (s\<lparr> lockManager := locks \<rparr>) txn tx k))"

text \<open>
  \<^verbatim>\<open>delete\<close> after its lock is granted (lines 662-690). The before-image is read from
  the file alone; a parse error leaves it \<^verbatim>\<open>null\<close>.
\<close>

definition deleteGranted :: "Engine \<Rightarrow> string \<Rightarrow> Transaction \<Rightarrow> string \<Rightarrow> unit outcome \<times> Engine" where
  "deleteGranted s txn tx k =
     (let before0 =
            (case files s (filePath k) of
               None \<Rightarrow> JNull
             | Some Blank \<Rightarrow> JObj []
             | Some Malformed \<Rightarrow> JNull
             | Some (Document v) \<Rightarrow> v)
      in case writeLog (wal s) (logRecord DELETE txn (Some k) before0 JNull) of
           (Inl err, w) \<Rightarrow>
             (Failed err,
              s\<lparr> wal := w, lockManager := snd (releaseLock (lockManager s) k txn) \<rparr>)
         | (Inr l, w) \<Rightarrow>
             (Done (),
              s\<lparr> wal := w,
                 activeTransactions := (activeTransactions s)
                   (txn \<mapsto> tx\<lparr> operations := operations tx @ [(k, DeleteOp)] \<rparr>) \<rparr>))"

text \<open>\<^verbatim>\<open>delete\<close> (lines 653-691).\<close>

definition delete :: "Engine \<Rightarrow> string \<Rightarrow> string \<Rightarrow> unit outcome \<times> Engine" where
  "delete s txn k =
     (case activeTransactions s txn of
        None \<Rightarrow> (Failed InvalidTransaction, s)
      | Some tx \<Rightarrow>
          if status tx \<noteq> Active then (Failed InvalidTransaction, s)
          else
            (case acquireLock (lockManager s) k txn Exclusive of
               (False, locks) \<Rightarrow> (Pending, s\<lparr> lockManager := locks \<rparr>)
             | (True, locks) \<Rightarrow> deleteGranted (s\<lparr> lockManager := locks \<rparr>) txn tx k))"

text \<open>
  \<^verbatim>\<open>rollbackTransaction\<close> (lines 749-771). Its only guard is that the registry knows
  the identifier.
\<close>

definition rollbackTransaction :: "Engine \<Rightarrow> string \<Rightarrow> unit outcome \<times> Engine" where
  "rollbackTransaction s txn =
     (case activeTransactions s txn of
        None \<Rightarrow> (Failed TransactionNotFound, s)
      | Some tx \<Rightarrow>
          (case writeLog (wal s) (logRecord ROLLBACK txn None JUndefined JUndefined) of
             (Inl err, w) \<Rightarrow> (Failed err, s\<lparr> wal := w \<rparr>)
           | (Inr l, w) \<Rightarrow>
               (Done (),
                s\<lparr> wal := w,
                   activeTransactions := (activeTransactions s)(txn \<mapsto> tx\<lparr> status := Aborted \<rparr>),
                   lockManager := releaseAllLocks (lockManager s) txn \<rparr>)))"

text \<open>The body of the loop that applies a committed transaction's entries (lines 713-731).\<close>

definition applyEntry :: "LogEntry \<Rightarrow> dataDir \<Rightarrow> dataDir" where
  "applyEntry entry fs =
     (case key entry of
        None \<Rightarrow> fs
      | Some k \<Rightarrow>
          if k = [] then fs
          else if operation entry = WRITE \<and> afterImage entry \<noteq> JUndefined then
            fs(filePath k \<mapsto> Document (afterImage entry))
          else if operation entry = DELETE then fs(filePath k := None)
          else fs)"

text \<open>
  The \<^verbatim>\<open>try\<close> block of \<^verbatim>\<open>commitTransaction\<close> (lines 699-741): \<open>Some err\<close> when it
  throws, with the state reached by then.
\<close>

definition commitAttempt :: "Engine \<Rightarrow> string \<Rightarrow> Transaction \<Rightarrow> error option \<times> Engine" where
  "commitAttempt s txn tx =
     (case writeLog (wal s) (logRecord COMMIT txn None JUndefined JUndefined) of
        (Inl err, w1) \<Rightarrow> (Some err, s\<lparr> wal := w1 \<rparr>)
      | (Inr l, w1) \<Rightarrow>
          (case flushBuffer w1 of
             (Some err, w2) \<Rightarrow> (Some err, s\<lparr> wal := w2 \<rparr>)
           | (None, w2) \<Rightarrow>
               (let logEntries = getLogEntries w2 (Some (startLSN tx));
                    applied = fold applyEntry
                                (filter (\<lambda>entry. transactionId entry = txn) logEntries)
                                (files s)
                in (None,
                    s\<lparr> wal := clearCommittedTransaction w2 txn,
                       files := applied,
                       activeTransactions :=
                         (activeTransactions s)(txn \<mapsto> tx\<lparr> status := Committed \<rparr>),
                       lockManager := releaseAllLocks (lockManager s) txn \<rparr>))))"

text \<open>
  \<^verbatim>\<open>commitTransaction\<close> (lines 693-747). When the \<^verbatim>\<open>try\<close> block throws, the
  \<^verbatim>\<open>catch\<close> rolls the transaction back and throws \<^verbatim>\<open>Commit failed\<close>, unless the
  rollback throws first.
\<close>

definition commitTransaction :: "Engine \<Rightarrow> string \<Rightarrow> unit outcome \<times> Engine" where
  "commitTransaction s txn =
     (case activeTransactions s txn of
        None \<Rightarrow> (Failed InvalidTransaction, s)
      | Some tx \<Rightarrow>
          if status tx \<noteq> Active then (Failed InvalidTransaction, s)
          else
            (case commitAttempt s txn tx of
               (None, s1) \<Rightarrow> (Done (), s1)
             | (Some err, s1) \<Rightarrow>
                 (case rollbackTransaction s1 txn of
                    (Failed err2, s2) \<Rightarrow> (Failed err2, s2)
                  | (r, s2) \<Rightarrow> (Failed CommitFailed, s2))))"

text \<open>\<^verbatim>\<open>forceCheckpoint\<close> (lines 805-811).\<close>

definition forceCheckpoint :: "Engine \<Rightarrow> unit outcome \<times> Engine" where
  "forceCheckpoint s =
     (case writeLog (wal s) checkpointEntry of
        (Inl err, w1) \<Rightarrow> (Failed err, s\<lparr> wal := w1 \<rparr>)
      | (Inr l, w1) \<Rightarrow>
          (case flushBuffer w1 of
             (Some err, w2) \<Rightarrow> (Failed err, s\<lparr> wal := w2 \<rparr>)
           | (None, w2) \<Rightarrow> (Done (), s\<lparr> wal := w2 \<rparr>)))"

text \<open>
  The constructor (lines 428-442): the log is opened, then crash recovery runs on the
  data directory.
\<close>

definition openEngine ::
  "bool \<Rightarrow> (wal_line list \<Rightarrow> bool) \<Rightarrow> bool list \<Rightarrow> wal_line list option \<Rightarrow> dataDir \<Rightarrow> Engine" where
  "openEngine readThrows limit faults file fs =
     (let w = initializeWAL readThrows limit faults file
      in \<lparr> wal = w, lockManager = Map.empty, files = performCrashRecovery w fs,
           activeTransactions = Map.empty \<rparr>)"

section \<open>The calls of the engine, and notions used in the statements\<close>

text \<open>
  The calls a client makes on the engine (\<^verbatim>\<open>destroy\<close>, which rolls every active
  transaction back, is not among them), the continuation of a write, read or delete whose
  lock request had to wait and has now been granted from the queue, and the expiry of
  the timer of a request that still waits.
\<close>

datatype call =
    Begin string
  | Write string string jsval
  | Read string string
  | Delete string string
  | Commit string
  | Rollback string
  | Checkpoint
  | Expire string string
  | ResumeWrite string string jsval
  | ResumeRead string string
  | ResumeDelete string string

fun void :: "unit outcome \<Rightarrow> jsval outcome" where
  "void (Done u) = Done JUndefined"
| "void (Failed err) = Failed err"
| "void Pending = Pending"

text \<open>
  One call on a state of the engine. A continuation runs on the transaction object its
  call took from the registry, which keeps every transaction it was given; for an
  identifier the registry does not know there is no such continuation.
\<close>

fun perform :: "Engine \<Rightarrow> call \<Rightarrow> jsval outcome \<times> Engine" where
  "perform s (Begin txn) =
     (case beginTransaction s txn of
        (Done t, s') \<Rightarrow> (Done (JStr t), s')
      | (Failed err, s') \<Rightarrow> (Failed err, s')
      | (Pending, s') \<Rightarrow> (Pending, s'))"
| "perform s (Write txn k data) = (case write' s txn k data of (r, s') \<Rightarrow> (void r, s'))"
| "perform s (Read txn k) = read s txn k"
| "perform s (Delete txn k) = (case delete s txn k of (r, s') \<Rightarrow> (void r, s'))"
| "perform s (Commit txn) = (case commitTransaction s txn of (r, s') \<Rightarrow> (void r, s'))"
| "perform s (Rollback txn) = (case rollbackTransaction s txn of (r, s') \<Rightarrow> (void r, s'))"
| "perform s Checkpoint = (case forceCheckpoint s of (r, s') \<Rightarrow> (void r, s'))"
| "perform s (Expire txn k) =
     (Failed LockTimeout, s\<lparr> lockManager := removeLockRequest (lockManager s) k txn \<rparr>)"
| "perform s (ResumeWrite txn k data) =
     (case activeTransactions s txn of
        None \<Rightarrow> (Pending, s)
      | Some tx \<Rightarrow> (case writeGranted s txn tx k data of (r, s') \<Rightarrow> (void r, s')))"
| "perform s (ResumeRead txn k) =
     (case activeTransactions s txn of
        None \<Rightarrow> (Pending, s)
      | Some tx \<Rightarrow> readGranted s txn tx k)"
| "perform s (ResumeDelete txn k) =
     (case activeTransactions s txn of
        None \<Rightarrow> (Pending, s)
      | Some tx \<Rightarrow> (case deleteGranted s txn tx k of (r, s') \<Rightarrow> (void r, s')))"

text \<open>The transaction is among the holders of the key's lock.\<close>

definition holdsLock :: "LockTable \<Rightarrow> string \<Rightarrow> string \<Rightarrow> bool" where
  "holdsLock locks k txn =
     (case locks k of None \<Rightarrow> False | Some lockInfo \<Rightarrow> txn \<in> holders lockInfo)"

text \<open>The transaction and key a write, read or delete (or its continuation) works on.\<close>

fun dataCall :: "call \<Rightarrow> (string \<times> string) option" where
  "dataCall (Write txn k data) = Some (txn, k)"
| "dataCall (Read txn k) = Some (txn, k)"
| "dataCall (Delete txn k) = Some (txn, k)"
| "dataCall (ResumeWrite txn k data) = Some (txn, k)"
| "dataCall (ResumeRead txn k) = Some (txn, k)"
| "dataCall (ResumeDelete txn k) = Some (txn, k)"
| "dataCall c = None"

text \<open>The lock request a call starts with.\<close>

fun lockRequest :: "call \<Rightarrow> (string \<times> string \<times> lockType) option" where
  "lockRequest (Write txn k data) = Some (txn, k, Exclusive)"
| "lockRequest (Read txn k) = Some (txn, k, Shared)"
| "lockRequest (Delete txn k) = Some (txn, k, Exclusive)"
| "lockRequest c = None"

text \<open>
  The call is a write, read or delete of the transaction on the key that threw after its
  lock was granted (the status check, which comes before, throws
  \<^verbatim>\<open>Invalid transaction\<close>).
\<close>

definition failedAfterLock :: "string \<Rightarrow> string \<Rightarrow> call \<Rightarrow> jsval outcome \<Rightarrow> bool" where
  "failedAfterLock txn k c r =
     (dataCall c = Some (txn, k)
      \<and> (case r of Failed err \<Rightarrow> err \<noteq> InvalidTransaction | _ \<Rightarrow> False))"

text \<open>
  The call is a lock request on the key by another transaction that is itself among the
  holders of that lock, other than a shared request on a lock in shared mode.
\<close>

definition requestByCoHolder :: "LockTable \<Rightarrow> string \<Rightarrow> string \<Rightarrow> call \<Rightarrow> bool" where
  "requestByCoHolder locks txn k c =
     (case lockRequest c of
        None \<Rightarrow> False
      | Some (other, k', requested) \<Rightarrow>
          k' = k \<and> other \<noteq> txn \<and> holdsLock locks k other
          \<and> (case locks k of
                None \<Rightarrow> False
              | Some lockInfo \<Rightarrow> \<not> (requested = Shared \<and> lockMode lockInfo = Shared)))"

text \<open>The entries of the log in the order they were written: the file, then the buffer.\<close>

definition chronological :: "WriteAheadLog \<Rightarrow> LogEntry list" where
  "chronological w = fileEntries w @ logBuffer w"

text \<open>
  The content the log file gets if the buffer is flushed right after the entry has been
  pushed on it: the content on which the flush of an append tests the size limit.
\<close>

definition fileAfterAppend :: "WriteAheadLog \<Rightarrow> LogEntry \<Rightarrow> wal_line list" where
  "fileAfterAppend w e = flushContent (snd (pushLog w e))"

text \<open>Every entry of the log has an LSN below the next one to be given out.\<close>

definition walOrdered :: "WriteAheadLog \<Rightarrow> bool" where
  "walOrdered w = list_all (\<lambda>e. lsn e < currentLSN w) (chronological w)"

text \<open>
  The engine's log is ordered and every transaction of the table started below the next
  LSN; and the relation between a log and a later state of it: the order is kept and the
  next LSN has not gone back.
\<close>

definition engineOrdered :: "Engine \<Rightarrow> bool" where
  "engineOrdered s =
     (walOrdered (wal s)
      \<and> (\<forall>txn tx. activeTransactions s txn = Some tx \<longrightarrow> startLSN tx < currentLSN (wal s)))"

definition advances :: "WriteAheadLog \<Rightarrow> WriteAheadLog \<Rightarrow> bool" where
  "advances w w' = ((walOrdered w \<longrightarrow> walOrdered w') \<and> currentLSN w \<le> currentLSN w')"

text \<open>
  An engine opened on a data directory that has no log file yet, on a file system whose
  log writes succeed and with a log that stays below the rotation limit.
\<close>

definition freshEngine :: "dataDir \<Rightarrow> Engine" where
  "freshEngine fs = openEngine False (\<lambda>ls. False) [] None fs"


definition begunEngine :: "dataDir \<Rightarrow> Engine" where
  "begunEngine fs = snd (beginTransaction (freshEngine fs) ''t1'')"

definition writtenEngine :: Engine where
  "writtenEngine = snd (write' (begunEngine Map.empty) ''t1'' ''k'' (JObj [(''a'', JNum 1)]))"

definition abortedEngine :: Engine where
  "abortedEngine = snd (rollbackTransaction (begunEngine Map.empty) ''t1'')"

definition crashedLog :: "wal_line list" where
  "crashedLog =
     [Valid ((logRecord BEGIN ''t1'' None JUndefined JUndefined)\<lparr> lsn := 1 \<rparr>),
      Valid ((logRecord WRITE ''t1'' (Some ''a'') JNull (JObj [(''x'', JNum 1)]))\<lparr> lsn := 2 \<rparr>),
      Valid ((logRecord COMMIT ''t1'' None JUndefined JUndefined)\<lparr> lsn := 3 \<rparr>),
      Valid ((logRecord BEGIN ''t2'' None JUndefined JUndefined)\<lparr> lsn := 4 \<rparr>),
      Valid ((logRecord WRITE ''t2'' (Some ''b'') JNull (JObj [(''y'', JNum 2)]))\<lparr> lsn := 5 \<rparr>)]"

text \<open>
  One assignment to the data directory (a file written, or removed with \<open>None\<close>),
  and the functions on directories that amount to a fixed sequence of assignments.
\<close>

definition store :: "string \<times> fileContent option \<Rightarrow> dataDir \<Rightarrow> dataDir" where
  "store a d = d(fst a := snd a)"

definition stores :: "(dataDir \<Rightarrow> dataDir) \<Rightarrow> bool" where
  "stores f = (\<exists>as. \<forall>d. f d = fold store as d)"

section \<open>Properties of deepMerge\<close>



lemma getProp_error: "getProp v k = Inl e \<Longrightarrow> e = TypeError"
  by (cases v) simp_all


lemma hasOwnProperty_error: "hasOwnProperty source k = Inl e \<Longrightarrow> e = TypeError"
  by (auto simp: hasOwnProperty_def split: option.splits)



lemma deepMerge_mergeKeys_error:
  "deepMerge target source = Inl e \<longrightarrow> e = TypeError"
  "mergeKeys target source result ps = Inl e \<longrightarrow> e = TypeError"
proof (induction target source and target source result ps rule: deepMerge_mergeKeys.induct)
  case (3 target ps)
  then show ?case by (auto split: sum.splits)
next
  case (9 target source result k sv ps)
  then show ?case
    by (auto split: sum.splits if_splits dest: getProp_error hasOwnProperty_error)
qed simp_all

lemma deepMerge_error: "deepMerge target source = Inl e \<Longrightarrow> e = TypeError"
  using deepMerge_mergeKeys_error(1) by blast





subsection \<open>The merge on values\<close>


subsection \<open>The merge on a store\<close>

text \<open>
  The cells that exist when \<open>deepMergeH\<close> is called are the same afterwards; the
  loop changes, among them, the object under construction only.
\<close>

lemma length_setProp [simp]: "length (setProp h a k v) = length h"
  by (simp add: setProp_def split: cell.splits)























subsection \<open>The reference definition\<close>




section \<open>Properties of the lock manager\<close>


lemma acquireLock_queued:
  assumes "\<not> fst (acquireLock locks k txn requested)"
  shows "\<exists>lockInfo. locks k = Some lockInfo
           \<and> snd (acquireLock locks k txn requested) =
               locks(k \<mapsto> lockInfo\<lparr> waitQueue := waitQueue lockInfo
                          @ [\<lparr> reqTransactionId = txn, reqType = requested \<rparr>] \<rparr>)"
  using assms by (auto simp: acquireLock_def split: option.splits if_splits)

lemma holdsLock_acquire_other_key:
  "k' \<noteq> k \<Longrightarrow> holdsLock (snd (acquireLock locks k txn requested)) k' t = holdsLock locks k' t"
  by (auto simp: holdsLock_def acquireLock_def split: option.splits)

lemma holdsLock_acquire_same:
  assumes "holdsLock locks k t"
    and "txn = t \<or> \<not> holdsLock locks k txn
         \<or> (\<exists>lockInfo. locks k = Some lockInfo \<and> requested = Shared \<and> lockMode lockInfo = Shared)"
  shows "holdsLock (snd (acquireLock locks k txn requested)) k t"
  using assms
  by (auto simp: holdsLock_def acquireLock_def canGrantLock_def split: option.splits if_splits)


lemma releaseLock_other_key:
  "k' \<noteq> k \<Longrightarrow> snd (releaseLock locks k txn) k' = locks k'"
  by (auto simp: releaseLock_def Let_def split: option.splits prod.splits)

lemma holdsLock_release:
  assumes "holdsLock locks k' t" and "t \<noteq> txn \<or> k' \<noteq> k"
  shows "holdsLock (snd (releaseLock locks k txn)) k' t"
proof (cases "k' = k")
  case False
  then show ?thesis using assms(1) by (simp add: holdsLock_def releaseLock_other_key)
next
  case True
  with assms obtain lockInfo where l: "locks k = Some lockInfo" "t \<in> holders lockInfo" "t \<noteq> txn"
    by (auto simp: holdsLock_def split: option.splits)
  then have "holders lockInfo - {txn} \<noteq> {}" by auto
  with l True show ?thesis
    by (auto simp: holdsLock_def releaseLock_def Let_def)
qed

lemma holdsLock_releaseAll:
  assumes "holdsLock locks k t" and "t \<noteq> txn"
  shows "holdsLock (releaseAllLocks locks txn) k t"
proof -
  from assms obtain lockInfo where l: "locks k = Some lockInfo" "t \<in> holders lockInfo"
    by (auto simp: holdsLock_def split: option.splits)
  have r: "holdsLock (snd (releaseLock locks k txn)) k t"
    using holdsLock_release[OF assms(1), of txn k] assms(2) by simp
  show ?thesis
  proof (cases "txn \<in> holders lockInfo")
    case True
    with r l show ?thesis
      by (auto simp: releaseAllLocks_def holdsLock_def Let_def split: option.splits)
  next
    case False
    with l show ?thesis
      by (auto simp: releaseAllLocks_def holdsLock_def Let_def split: option.splits)
  qed
qed


text \<open>
  Claim C3: a transaction that holds a shared lock together with another shared holder
  and requests the exclusive lock has to wait. The code at that input: \<open>t1\<close> and
  \<open>t2\<close> hold the lock on \<open>k\<close> in shared mode, \<open>t1\<close> requests it in exclusive
  mode; \<^verbatim>\<open>canGrantLock\<close> answers true because \<open>t1\<close> is a holder, the request is
  granted at once, and \<^verbatim>\<open>holders.clear()\<close> drops \<open>t2\<close> from the holders.
\<close>

theorem acquireLock_upgrade_among_sharers:
  "acquireLock
     [''k'' \<mapsto> \<lparr> lockMode = Shared, holders = {''t1'', ''t2''}, waitQueue = [] \<rparr>]
     ''k'' ''t1'' Exclusive
   = (True, [''k'' \<mapsto> \<lparr> lockMode = Exclusive, holders = {''t1''}, waitQueue = [] \<rparr>])"
  by (simp add: acquireLock_def canGrantLock_def)

text \<open>
  Claim C10: \<open>releaseLock\<close> for a transaction that is not among the holders of the
  key's lock, or for a key that has no lock, returns normally, resumes no waiter and
  leaves the whole lock table as it was.
\<close>

theorem releaseLock_not_holder:
  assumes "locks k = None \<or> (\<exists>lockInfo. locks k = Some lockInfo \<and> txn \<notin> holders lockInfo)"
  shows "releaseLock locks k txn = ([], locks)"
  using assms by (auto simp: releaseLock_def)

theorem releaseLock_not_holder_witness:
  "([''k'' \<mapsto> \<lparr> lockMode = Exclusive, holders = {''t2''},
               waitQueue = [\<lparr> reqTransactionId = ''t3'', reqType = Shared \<rparr>] \<rparr>] ''k'' = None
    \<or> (\<exists>lockInfo.
          [''k'' \<mapsto> \<lparr> lockMode = Exclusive, holders = {''t2''},
                     waitQueue = [\<lparr> reqTransactionId = ''t3'', reqType = Shared \<rparr>] \<rparr>] ''k''
            = Some lockInfo
          \<and> ''t1'' \<notin> holders lockInfo))
   \<and> releaseLock
        [''k'' \<mapsto> \<lparr> lockMode = Exclusive, holders = {''t2''},
                   waitQueue = [\<lparr> reqTransactionId = ''t3'', reqType = Shared \<rparr>] \<rparr>]
        ''k'' ''t1''
      = ([], [''k'' \<mapsto> \<lparr> lockMode = Exclusive, holders = {''t2''},
                         waitQueue = [\<lparr> reqTransactionId = ''t3'', reqType = Shared \<rparr>] \<rparr>])"
proof -
  let ?locks = "[''k'' \<mapsto> \<lparr> lockMode = Exclusive, holders = {''t2''},
                   waitQueue = [\<lparr> reqTransactionId = ''t3'', reqType = Shared \<rparr>] \<rparr>]"
  have h: "?locks ''k'' = None
           \<or> (\<exists>lockInfo. ?locks ''k'' = Some lockInfo \<and> ''t1'' \<notin> holders lockInfo)"
    by simp
  from h releaseLock_not_holder[of ?locks "''k''" "''t1''", OF h] show ?thesis by blast
qed

section \<open>Properties of the write-ahead log\<close>

lemma foldl_max_lsn:
  "foldl (\<lambda>c e. max c (lsn e)) cur es = Max (insert cur (lsn ` set es))"
proof (induction es arbitrary: cur)
  case Nil
  then show ?case by simp
next
  case (Cons e es)
  have "Max (insert (max cur (lsn e)) (lsn ` set es))
        = Max (insert cur (insert (lsn e) (lsn ` set es)))"
  proof (cases "set es = {}")
    case True
    then show ?thesis by simp
  next
    case False
    then show ?thesis by (simp add: max.assoc)
  qed
  with Cons show ?case by simp
qed

text \<open>
  With a log file that exists and can be read, the next LSN is one more than the largest
  LSN among the verified entries (and 0); an empty file gives 1.
\<close>

lemma initializeWAL_existing:
  "currentLSN (initializeWAL False limit faults (Some ls))
     = Max (insert 0 (lsn ` set (verified ls))) + 1"
  by (simp add: initializeWAL_def recoverFromLog_def foldl_max_lsn)

lemma initializeWAL_empty_file:
  "currentLSN (initializeWAL readThrows limit faults (Some [])) = 1"
  by (simp add: initializeWAL_def recoverFromLog_def)

lemma writeLog_first_lsn:
  "operation e \<noteq> COMMIT \<Longrightarrow> operation e \<noteq> ROLLBACK \<Longrightarrow>
   fst (writeLog (initializeWAL readThrows limit faults file) e)
     = Inr (currentLSN (initializeWAL readThrows limit faults file))"
  by (simp add: writeLog_def pushLog_def initializeWAL_def BUFFER_SIZE_def)

lemma flushBuffer_error: "flushBuffer w = (Some e, w') \<Longrightarrow> e = WalFlushFailed"
  by (auto simp: flushBuffer_def split: if_splits list.splits bool.splits)

lemma writeLog_error: "writeLog w x = (Inl e, w') \<Longrightarrow> e = WalFlushFailed"
  by (auto simp: writeLog_def pushLog_def split: if_splits prod.splits option.splits
      dest: flushBuffer_error)

lemma verified_append: "verified (xs @ ys) = verified xs @ verified ys"
  by (induction xs rule: verified.induct) simp_all

lemma verified_Valid: "verified (map Valid es) = es"
  by (induction es) simp_all



lemma writeLog_lsn: "writeLog w e = (Inr l, w') \<Longrightarrow> l = currentLSN w"
  by (auto simp: writeLog_def pushLog_def split: if_splits prod.splits option.splits)

lemma set_getLogEntries:
  "\<not> unreadable w \<Longrightarrow>
     set (getLogEntries w b) = {x \<in> set (chronological w). fromBound b x}"
  by (auto simp: getLogEntries_def chronological_def)

lemma getLogEntries_unreadable:
  "logFile w \<noteq> None \<Longrightarrow> unreadable w \<Longrightarrow> getLogEntries w b = []"
  by (simp add: getLogEntries_def)

lemma sorted_getLogEntries: "sorted (map lsn (getLogEntries w b))"
  by (simp add: getLogEntries_def)




text \<open>
  The log's entries stay below the next LSN: the invariant holds when the log is opened
  on a readable file or on none, and every \<open>writeLog\<close> keeps it, whether it only
  buffers, flushes, rotates or fails.
\<close>

lemma walOrdered_initializeWAL: "walOrdered (initializeWAL False limit faults file)"
proof (cases "file")
  case None
  then show ?thesis
    by (simp add: walOrdered_def chronological_def fileEntries_def initializeWAL_def)
next
  case (Some ls)
  have "lsn e < Max (insert 0 (lsn ` set (verified ls))) + 1" if "e \<in> set (verified ls)" for e
  proof -
    have "lsn e \<le> Max (insert 0 (lsn ` set (verified ls)))"
      using that by (intro Max_ge) auto
    then show ?thesis by simp
  qed
  with Some show ?thesis
    by (simp add: walOrdered_def chronological_def fileEntries_def initializeWAL_def
        recoverFromLog_def foldl_max_lsn list_all_iff)
qed

lemma walOrdered_pushLog:
  assumes "walOrdered w"
  shows "walOrdered (snd (pushLog w e))"
proof -
  have "lsn x < currentLSN w + 1" if "x \<in> set (chronological w)" for x
    using assms that by (force simp: walOrdered_def list_all_iff)
  then show ?thesis
    by (auto simp: walOrdered_def chronological_def fileEntries_def pushLog_def
        list_all_iff)
qed

lemma walOrdered_rotateLog:
  assumes "walOrdered w"
  shows "walOrdered (rotateLog w)"
proof (cases "unreadable w")
  case True
  with assms show ?thesis by (simp add: rotateLog_def)
next
  case False
  from assms have "walOrdered (w\<lparr> logFile := Some [] \<rparr>)"
    by (simp add: walOrdered_def chronological_def fileEntries_def)
  then have "walOrdered (snd (pushLog (w\<lparr> logFile := Some [] \<rparr>) checkpointEntry))"
    by (rule walOrdered_pushLog)
  with False show ?thesis by (simp add: rotateLog_def)
qed

lemma walOrdered_checkLogRotation: "walOrdered w \<Longrightarrow> walOrdered (checkLogRotation w)"
  by (simp add: checkLogRotation_def walOrdered_rotateLog split: option.splits)

lemma walOrdered_flushBuffer:
  assumes "walOrdered w"
  shows "walOrdered (snd (flushBuffer w))"
proof -
  let ?w1 = "w\<lparr> logFile := Some (flushContent w),
               logBuffer := [], flushFaults := tl (flushFaults w) \<rparr>"
  have 1: "walOrdered ?w1"
    using assms
    by (auto simp: walOrdered_def chronological_def fileEntries_def verified_append
        verified_Valid flushContent_def list_all_iff split: option.splits)
  have 2: "walOrdered (w\<lparr> flushFaults := rest \<rparr>)" for rest
    using assms by (simp add: walOrdered_def chronological_def fileEntries_def)
  show ?thesis
    using assms walOrdered_checkLogRotation[OF 1] 2
    by (auto simp: flushBuffer_def split: list.splits bool.splits)
qed

lemma walOrdered_writeLog:
  assumes "walOrdered w"
  shows "walOrdered (snd (writeLog w e))"
proof -
  obtain l w1 where p: "pushLog w e = (l, w1)" by (cases "pushLog w e")
  with walOrdered_pushLog[OF assms, of e] have 1: "walOrdered w1" by simp
  obtain r w2 where f: "flushBuffer w1 = (r, w2)" by (cases "flushBuffer w1")
  with walOrdered_flushBuffer[OF 1] have 2: "walOrdered w2" by simp
  from p f 1 2 show ?thesis
    by (auto simp: writeLog_def split: option.splits)
qed

lemma currentLSN_writeLog: "currentLSN w < currentLSN (snd (writeLog w e))"
  by (auto simp: writeLog_def pushLog_def flushBuffer_def checkLogRotation_def rotateLog_def
      split: if_splits list.splits bool.splits option.splits)

text \<open>
  Every operation of the log keeps its order and never lowers the next LSN; an LSN that
  \<^verbatim>\<open>writeLog\<close> returns is below the next one.
\<close>

lemma advances_refl: "advances w w"
  by (simp add: advances_def)

lemma advances_trans: "advances w w1 \<Longrightarrow> advances w1 w2 \<Longrightarrow> advances w w2"
  by (auto simp: advances_def)

lemma currentLSN_flushBuffer: "currentLSN w \<le> currentLSN (snd (flushBuffer w))"
  by (auto simp: flushBuffer_def checkLogRotation_def rotateLog_def pushLog_def
      split: list.splits bool.splits option.splits)

lemma advances_flushBuffer: "flushBuffer w = (r, w') \<Longrightarrow> advances w w'"
  using walOrdered_flushBuffer[of w] currentLSN_flushBuffer[of w]
  by (auto simp: advances_def)

lemma advances_writeLog: "writeLog w e = (r, w') \<Longrightarrow> advances w w'"
  using walOrdered_writeLog[of w e] currentLSN_writeLog[of w e]
  by (auto simp: advances_def)

lemma verified_filter: "set (verified (filter P ls)) \<subseteq> set (verified ls)"
  by (induction ls rule: verified.induct) auto

lemma advances_clearCommittedTransaction: "advances w (clearCommittedTransaction w txn)"
proof -
  obtain r w1 where f: "flushBuffer w = (r, w1)" by (cases "flushBuffer w")
  note a = advances_flushBuffer[OF f]
  have "advances w1 (w1\<lparr> logFile := Some (filter (keepLine txn) ls) \<rparr>)"
    if "logFile w1 = Some ls" for ls
    using that verified_filter[of "keepLine txn" ls]
    by (auto simp: advances_def walOrdered_def chronological_def fileEntries_def list_all_iff)
  with a f show ?thesis
    by (auto simp: clearCommittedTransaction_def advances_refl
        split: option.splits intro: advances_trans)
qed

lemma currentLSN_writeLog_result:
  "writeLog w e = (Inr l, w') \<Longrightarrow> l < currentLSN w'"
  by (auto simp: writeLog_def pushLog_def flushBuffer_def checkLogRotation_def rotateLog_def
      split: if_splits list.splits bool.splits option.splits)

text \<open>
  Opening the engine on a directory whose log file is absent or empty leaves every file
  of the directory as it is: recovery finds no entry to redo or undo.
\<close>

lemma openEngine_without_log:
  "files (openEngine readThrows limit faults None fs) = fs"
  "files (openEngine readThrows limit faults (Some []) fs) = fs"
  by (simp_all add: openEngine_def initializeWAL_def performCrashRecovery_def
      getLogEntries_def fileEntries_def Let_def)

text \<open>
  Claim C8: after the log is initialised with an absent log file, the first LSN an
  append returns is 1. The code at that input: the file does not exist, so
  \<^verbatim>\<open>recoverFromLog\<close> is not run, \<^verbatim>\<open>currentLSN\<close> keeps its initial value 0, and the
  first \<^verbatim>\<open>writeLog\<close> returns 0; with an empty file that exists it returns 1.
\<close>

theorem writeLog_first_lsn_absent_file:
  "fst (writeLog (initializeWAL False (\<lambda>ls. False) [] None)
                 (logRecord BEGIN ''t1'' None JUndefined JUndefined)) = Inr 0
   \<and> fst (writeLog (initializeWAL False (\<lambda>ls. False) [] (Some []))
                   (logRecord BEGIN ''t1'' None JUndefined JUndefined)) = Inr 1"
  by (simp add: writeLog_def pushLog_def initializeWAL_def recoverFromLog_def
      logRecord_def BUFFER_SIZE_def)

section \<open>Properties of crash recovery\<close>

text \<open>
  Each step of recovery writes a value fixed by its log entry to a file fixed by its log
  entry, removes that file, or does nothing; it never reads the directory.
\<close>

lemma fold_store_lookup:
  "fold store as d p = (case map_of (rev as) p of Some c \<Rightarrow> c | None \<Rightarrow> d p)"
proof (induction as arbitrary: d)
  case Nil
  then show ?case by simp
next
  case (Cons a as)
  obtain q c where a: "a = (q, c)" by (cases a)
  have "fold store (a # as) d p = fold store as (store a d) p" by simp
  also have "\<dots> = (case map_of (rev as) p of Some c \<Rightarrow> c | None \<Rightarrow> store a d p)"
    by (rule Cons)
  also have "\<dots> = (case map_of (rev (a # as)) p of Some c \<Rightarrow> c | None \<Rightarrow> d p)"
    by (simp add: a store_def map_add_def split: option.splits)
  finally show ?case .
qed

lemma fold_store_idem: "fold store as (fold store as d) = fold store as d"
  by (rule ext) (simp add: fold_store_lookup split: option.splits)

lemma stores_idem: "stores f \<Longrightarrow> f (f d) = f d"
  by (auto simp: stores_def fold_store_idem)

lemma stores_id: "stores (\<lambda>d. d)"
  unfolding stores_def by (rule exI[of _ "[]"]) simp

lemma stores_upd: "stores (\<lambda>d. d(p := c))"
  unfolding stores_def by (rule exI[of _ "[(p, c)]"]) (simp add: store_def)

lemma stores_if: "stores f \<Longrightarrow> stores g \<Longrightarrow> stores (\<lambda>d. if b then f d else g d)"
  by (cases b) simp_all

lemma stores_comp:
  assumes "stores f" "stores g"
  shows "stores (\<lambda>d. g (f d))"
proof -
  from assms obtain as bs where "\<forall>d. f d = fold store as d" "\<forall>d. g d = fold store bs d"
    by (auto simp: stores_def)
  then have "\<forall>d. g (f d) = fold store (as @ bs) d" by simp
  then show ?thesis unfolding stores_def by blast
qed

lemma stores_fold:
  assumes "\<And>e. stores (g e)"
  shows "stores (fold g es)"
proof (induction es)
  case Nil
  then show ?case by (simp add: stores_id id_def)
next
  case (Cons e es)
  have "fold g (e # es) = (\<lambda>d. fold g es (g e d))" by (simp add: fun_eq_iff)
  then show ?case using stores_comp[OF assms[of e] Cons] by simp
qed

lemma stores_redoOperation: "stores (redoOperation e)"
proof -
  have "redoOperation e = (\<lambda>d. d)
        \<or> redoOperation e = (\<lambda>d. d(filePath (the (key e)) := Some (Document (afterImage e))))"
    by (auto simp: redoOperation_def fun_eq_iff split: option.splits)
  then show ?thesis using stores_id stores_upd by auto
qed

lemma stores_redoDelete: "stores (redoDelete e)"
proof -
  have "redoDelete e = (\<lambda>d. d)
        \<or> redoDelete e = (\<lambda>d. d(filePath (the (key e)) := None))"
    by (auto simp: redoDelete_def fun_eq_iff split: option.splits)
  then show ?thesis using stores_id stores_upd by auto
qed

lemma stores_undoOperation: "stores (undoOperation e)"
proof -
  have "undoOperation e = (\<lambda>d. d)
        \<or> undoOperation e = (\<lambda>d. d(filePath (the (key e)) := None))
        \<or> undoOperation e = (\<lambda>d. d(filePath (the (key e)) := Some (Document (beforeImage e))))"
    by (auto simp: undoOperation_def fun_eq_iff split: option.splits)
  then show ?thesis using stores_id stores_upd by auto
qed

lemma stores_performCrashRecovery: "stores (performCrashRecovery w)"
proof -
  let ?es = "getLogEntries w None"
  let ?C = "set (map transactionId (filter (\<lambda>e. operation e = COMMIT) ?es))"
  let ?g = "\<lambda>entry d.
              if operation entry = WRITE \<and> transactionId entry \<in> ?C
              then redoOperation entry d
              else if operation entry = DELETE \<and> transactionId entry \<in> ?C
              then redoDelete entry d
              else d"
  have g: "stores (?g e)" for e
    by (intro stores_if stores_redoOperation stores_redoDelete stores_id)
  have redo: "stores (fold ?g ?es)" by (rule stores_fold) (rule g)
  have undo: "stores (fold undoOperation us)" for us
    by (rule stores_fold) (rule stores_undoOperation)
  let ?us = "rev (filter (\<lambda>entry.
                           (operation entry = WRITE \<or> operation entry = DELETE)
                           \<and> transactionId entry \<notin> ?C
                           \<and> transactionId entry \<notin>
                               set (map transactionId (filter (\<lambda>e. operation e = ROLLBACK) ?es)))
                        ?es)"
  have "performCrashRecovery w = (\<lambda>d. fold undoOperation ?us (fold ?g ?es d))"
    by (rule ext) (simp only: performCrashRecovery_def Let_def)
  then show ?thesis using stores_comp[OF redo undo[of ?us]] by simp
qed

text \<open>
  Claim C6: crash recovery is idempotent. For every log and every data directory,
  running analysis, redo and undo a second time on the directory the first run left
  (the log is the same: recovery does not write to it) yields the directory of the
  first run.
\<close>

theorem recovery_idempotent:
  "performCrashRecovery w (performCrashRecovery w fs) = performCrashRecovery w fs"
  by (rule stores_idem) (rule stores_performCrashRecovery)

text \<open>
  The unfolding rules that evaluate the engine on a concrete state.
\<close>

lemmas engine_eval = abortedEngine_def crashedLog_def
  begunEngine_def writtenEngine_def freshEngine_def openEngine_def initializeWAL_def
  recoverFromLog_def performCrashRecovery_def getLogEntries_def fileEntries_def
  beginTransaction_def writeLog_def pushLog_def flushBuffer_def flushContent_def
  checkLogRotation_def rotateLog_def logRecord_def BUFFER_SIZE_def hasOwnProperty_def
  fileAfterAppend_def
  write'_def writeGranted_def currentData_def read_def readGranted_def delete_def
  deleteGranted_def rollbackTransaction_def commitTransaction_def commitAttempt_def
  transactionEntries_def acquireLock_def canGrantLock_def releaseLock_def
  releaseAllLocks_def holdsLock_def filePath_def orEmpty_def chronological_def
  walOrdered_def Let_def

text \<open>
  Claim C6 at a concrete input: the log \<open>crashedLog\<close> and a directory in which the
  uncommitted write of \<open>t2\<close> has reached the file of \<open>b\<close>. Recovery writes the
  committed document \<open>a\<close> and removes \<open>b\<close>; a second run changes nothing.
\<close>

theorem recovery_idempotent_witness:
  "performCrashRecovery (initializeWAL False (\<lambda>ls. False) [] (Some crashedLog))
     [''b.json'' \<mapsto> Document (JObj [(''y'', JNum 2)])] ''a.json''
     = Some (Document (JObj [(''x'', JNum 1)]))
   \<and> performCrashRecovery (initializeWAL False (\<lambda>ls. False) [] (Some crashedLog))
       [''b.json'' \<mapsto> Document (JObj [(''y'', JNum 2)])] ''b.json'' = None
   \<and> performCrashRecovery (initializeWAL False (\<lambda>ls. False) [] (Some crashedLog))
       (performCrashRecovery (initializeWAL False (\<lambda>ls. False) [] (Some crashedLog))
          [''b.json'' \<mapsto> Document (JObj [(''y'', JNum 2)])])
     = performCrashRecovery (initializeWAL False (\<lambda>ls. False) [] (Some crashedLog))
         [''b.json'' \<mapsto> Document (JObj [(''y'', JNum 2)])]"
proof -
  let ?w = "initializeWAL False (\<lambda>ls. False) [] (Some crashedLog)"
  let ?d = "[''b.json'' \<mapsto> Document (JObj [(''y'', JNum 2)])]"
  have 1: "performCrashRecovery ?w ?d ''a.json'' = Some (Document (JObj [(''x'', JNum 1)]))"
    by code_simp
  have 2: "performCrashRecovery ?w ?d ''b.json'' = None"
    by code_simp
  from recovery_idempotent[of ?w ?d] 1 2 show ?thesis by simp
qed

section \<open>Properties of the engine\<close>

subsection \<open>What the calls do to the lock table\<close>

lemma writeGranted_locks:
  assumes "writeGranted s txn tx k d = (r, s')"
  shows "case r of
           Failed e \<Rightarrow> e \<noteq> InvalidTransaction
                        \<and> lockManager s' = snd (releaseLock (lockManager s) k txn)
         | _ \<Rightarrow> lockManager s' = lockManager s"
  using assms
  by (auto simp: writeGranted_def Let_def split: sum.splits prod.splits
      dest!: writeLog_error deepMerge_error)

lemma readGranted_locks:
  assumes "readGranted s txn tx k = (r, s')"
  shows "case r of
           Failed e \<Rightarrow> e \<noteq> InvalidTransaction
                        \<and> lockManager s' = snd (releaseLock (lockManager s) k txn)
         | _ \<Rightarrow> lockManager s' = lockManager s"
  using assms
  by (auto simp: readGranted_def Let_def split: if_splits option.splits fileContent.splits)

lemma deleteGranted_locks:
  assumes "deleteGranted s txn tx k = (r, s')"
  shows "case r of
           Failed e \<Rightarrow> e \<noteq> InvalidTransaction
                        \<and> lockManager s' = snd (releaseLock (lockManager s) k txn)
         | _ \<Rightarrow> lockManager s' = lockManager s"
  using assms
  by (auto simp: deleteGranted_def Let_def split: sum.splits prod.splits dest!: writeLog_error)

lemma rollbackTransaction_locks:
  "rollbackTransaction s txn = (r, s') \<Longrightarrow>
     lockManager s' = lockManager s \<or> lockManager s' = releaseAllLocks (lockManager s) txn"
  by (auto simp: rollbackTransaction_def split: option.splits prod.splits sum.splits)

lemma commitAttempt_locks:
  "commitAttempt s txn tx = (r, s') \<Longrightarrow>
     lockManager s' = lockManager s \<or> lockManager s' = releaseAllLocks (lockManager s) txn"
  by (auto simp: commitAttempt_def Let_def split: option.splits prod.splits sum.splits)


lemma forceCheckpoint_locks:
  "forceCheckpoint s = (r, s') \<Longrightarrow> lockManager s' = lockManager s"
  by (auto simp: forceCheckpoint_def split: prod.splits sum.splits option.splits)

lemma holdsLock_removeLockRequest:
  "holdsLock (removeLockRequest locks k txn) k' t = holdsLock locks k' t"
  by (auto simp: holdsLock_def removeLockRequest_def split: option.splits)

lemma request_keeps_holder:
  assumes "holdsLock locks k0 t"
    and "acquireLock locks k txn requested = (g, lm)"
    and "\<not> requestByCoHolder locks t k0 c"
    and "lockRequest c = Some (txn, k, requested)"
  shows "holdsLock lm k0 t"
proof (cases "k = k0")
  case False
  then show ?thesis
    using holdsLock_acquire_other_key[of k0 k locks txn requested t] assms(1,2) by simp
next
  case True
  from assms(1) obtain lockInfo where l: "locks k0 = Some lockInfo"
    by (auto simp: holdsLock_def split: option.splits)
  from assms(3,4) True l
  have "txn = t \<or> \<not> holdsLock locks k0 txn
        \<or> (\<exists>lockInfo. locks k0 = Some lockInfo \<and> requested = Shared \<and> lockMode lockInfo = Shared)"
    by (auto simp: requestByCoHolder_def)
  from holdsLock_acquire_same[OF assms(1) this] assms(2) True show ?thesis by simp
qed

lemma body_keeps_holder:
  assumes "holdsLock (lockManager s) k0 t"
    and "case r of
           Failed e \<Rightarrow> e \<noteq> InvalidTransaction
                        \<and> lockManager s' = snd (releaseLock (lockManager s) k txn)
         | _ \<Rightarrow> lockManager s' = lockManager s"
    and "\<not> (txn = t \<and> k = k0 \<and> (case r of Failed e \<Rightarrow> e \<noteq> InvalidTransaction | _ \<Rightarrow> False))"
  shows "holdsLock (lockManager s') k0 t"
proof (cases r)
  case (Failed e)
  with assms(2,3) have "t \<noteq> txn \<or> k0 \<noteq> k"
    and "lockManager s' = snd (releaseLock (lockManager s) k txn)" by auto
  then show ?thesis using holdsLock_release[OF assms(1)] by simp
qed (use assms in auto)

lemma void_Failed: "(case void r of Failed e \<Rightarrow> P e | _ \<Rightarrow> False)
                    = (case r of Failed e \<Rightarrow> P e | _ \<Rightarrow> False)"
  by (cases r) simp_all

lemma write_keeps_holder:
  assumes h: "holdsLock (lockManager s) k0 t"
    and w: "write' s txn k d = (r, s')"
    and f: "\<not> failedAfterLock t k0 (Write txn k d) (void r)"
    and c: "\<not> requestByCoHolder (lockManager s) t k0 (Write txn k d)"
  shows "holdsLock (lockManager s') k0 t"
proof (cases "activeTransactions s txn")
  case None
  with w h show ?thesis by (simp add: write'_def)
next
  case (Some tx)
  show ?thesis
  proof (cases "status tx = Active")
    case False
    with Some w h show ?thesis by (simp add: write'_def)
  next
    case True
    obtain g lm where a: "acquireLock (lockManager s) k txn Exclusive = (g, lm)"
      by (cases "acquireLock (lockManager s) k txn Exclusive")
    have lm: "holdsLock lm k0 t"
      by (rule request_keeps_holder[OF h a c]) simp
    show ?thesis
    proof (cases g)
      case False
      with Some True a w lm show ?thesis by (auto simp: write'_def)
    next
      case g: True
      with Some True a w have b: "writeGranted (s\<lparr>lockManager := lm\<rparr>) txn tx k d = (r, s')"
        by (simp add: write'_def)
      from f have "\<not> (txn = t \<and> k = k0
                       \<and> (case r of Failed e \<Rightarrow> e \<noteq> InvalidTransaction | _ \<Rightarrow> False))"
        by (simp add: failedAfterLock_def void_Failed)
      from body_keeps_holder[OF _ writeGranted_locks[OF b] this] lm show ?thesis by simp
    qed
  qed
qed

lemma read_keeps_holder:
  assumes h: "holdsLock (lockManager s) k0 t"
    and w: "read s txn k = (r, s')"
    and f: "\<not> failedAfterLock t k0 (Read txn k) r"
    and c: "\<not> requestByCoHolder (lockManager s) t k0 (Read txn k)"
  shows "holdsLock (lockManager s') k0 t"
proof (cases "activeTransactions s txn")
  case None
  with w h show ?thesis by (simp add: read_def)
next
  case (Some tx)
  show ?thesis
  proof (cases "status tx = Active")
    case False
    with Some w h show ?thesis by (simp add: read_def)
  next
    case True
    obtain g lm where a: "acquireLock (lockManager s) k txn Shared = (g, lm)"
      by (cases "acquireLock (lockManager s) k txn Shared")
    have lm: "holdsLock lm k0 t"
      by (rule request_keeps_holder[OF h a c]) simp
    show ?thesis
    proof (cases g)
      case False
      with Some True a w lm show ?thesis by (auto simp: read_def)
    next
      case g: True
      with Some True a w have b: "readGranted (s\<lparr>lockManager := lm\<rparr>) txn tx k = (r, s')"
        by (simp add: read_def)
      from f have "\<not> (txn = t \<and> k = k0
                       \<and> (case r of Failed e \<Rightarrow> e \<noteq> InvalidTransaction | _ \<Rightarrow> False))"
        by (simp add: failedAfterLock_def)
      from body_keeps_holder[OF _ readGranted_locks[OF b] this] lm show ?thesis by simp
    qed
  qed
qed

lemma delete_keeps_holder:
  assumes h: "holdsLock (lockManager s) k0 t"
    and w: "delete s txn k = (r, s')"
    and f: "\<not> failedAfterLock t k0 (Delete txn k) (void r)"
    and c: "\<not> requestByCoHolder (lockManager s) t k0 (Delete txn k)"
  shows "holdsLock (lockManager s') k0 t"
proof (cases "activeTransactions s txn")
  case None
  with w h show ?thesis by (simp add: delete_def)
next
  case (Some tx)
  show ?thesis
  proof (cases "status tx = Active")
    case False
    with Some w h show ?thesis by (simp add: delete_def)
  next
    case True
    obtain g lm where a: "acquireLock (lockManager s) k txn Exclusive = (g, lm)"
      by (cases "acquireLock (lockManager s) k txn Exclusive")
    have lm: "holdsLock lm k0 t"
      by (rule request_keeps_holder[OF h a c]) simp
    show ?thesis
    proof (cases g)
      case False
      with Some True a w lm show ?thesis by (auto simp: delete_def)
    next
      case g: True
      with Some True a w have b: "deleteGranted (s\<lparr>lockManager := lm\<rparr>) txn tx k = (r, s')"
        by (simp add: delete_def)
      from f have "\<not> (txn = t \<and> k = k0
                       \<and> (case r of Failed e \<Rightarrow> e \<noteq> InvalidTransaction | _ \<Rightarrow> False))"
        by (simp add: failedAfterLock_def void_Failed)
      from body_keeps_holder[OF _ deleteGranted_locks[OF b] this] lm show ?thesis by simp
    qed
  qed
qed

lemma commitTransaction_locks:
  assumes "commitTransaction s txn = (r, s')"
  shows "lockManager s' = lockManager s \<or> lockManager s' = releaseAllLocks (lockManager s) txn"
proof (cases "activeTransactions s txn")
  case None
  with assms show ?thesis by (simp add: commitTransaction_def)
next
  case (Some tx)
  show ?thesis
  proof (cases "status tx = Active")
    case False
    with Some assms show ?thesis by (simp add: commitTransaction_def)
  next
    case True
    obtain e s1 where a: "commitAttempt s txn tx = (e, s1)" by (cases "commitAttempt s txn tx")
    note l1 = commitAttempt_locks[OF a]
    show ?thesis
    proof (cases e)
      case None
      with Some True a assms l1 show ?thesis by (simp add: commitTransaction_def)
    next
      case (Some err)
      obtain r2 s2 where b: "rollbackTransaction s1 txn = (r2, s2)"
        by (cases "rollbackTransaction s1 txn")
      from Some \<open>activeTransactions s txn = Some tx\<close> True a b assms have "s' = s2"
        by (auto simp: commitTransaction_def split: outcome.splits)
      moreover have "commitAttempt s txn tx = (Some err, s1) \<Longrightarrow> lockManager s1 = lockManager s"
        by (auto simp: commitAttempt_def Let_def split: prod.splits sum.splits option.splits)
      ultimately show ?thesis using rollbackTransaction_locks[OF b] a Some by auto
    qed
  qed
qed

lemma beginTransaction_locks:
  "beginTransaction s txn = (r, s') \<Longrightarrow> lockManager s' = lockManager s"
  by (auto simp: beginTransaction_def split: prod.splits sum.splits)

text \<open>
  Claim C2, as stated: once a transaction has acquired the lock on a key, no engine
  operation other than its commit or rollback removes it from the holders, not even a
  read that fails after the lock was acquired. The code at a concrete input: the file of
  \<open>k\<close> does not parse; the read of the active transaction \<open>t1\<close> acquires the shared
  lock, \<^verbatim>\<open>JSON.parse\<close> throws, the \<^verbatim>\<open>catch\<close> block calls \<^verbatim>\<open>releaseLock\<close>, and
  \<open>t1\<close>, still active, no longer holds the lock.
\<close>

theorem failed_read_counterexample:
  "holdsLock (snd (acquireLock (lockManager (begunEngine [''k.json'' \<mapsto> Malformed]))
                               ''k'' ''t1'' Shared)) ''k'' ''t1''
   \<and> fst (read (begunEngine [''k.json'' \<mapsto> Malformed]) ''t1'' ''k'') = Failed ReadFailed
   \<and> \<not> holdsLock (lockManager (snd (read (begunEngine [''k.json'' \<mapsto> Malformed]) ''t1'' ''k'')))
                   ''k'' ''t1''
   \<and> map_option status
        (activeTransactions (snd (read (begunEngine [''k.json'' \<mapsto> Malformed]) ''t1'' ''k''))
           ''t1'') = Some Active"
  by (simp add: engine_eval)

text \<open>
  Claim C2, amended: a transaction that is among the holders of a key's lock is still
  among them after any call of the engine (begin, write, read, delete, commit,
  rollback, checkpoint, by any transaction, the continuation of a call that had to wait,
  and the expiry of a waiting request), except
  after its own commit or rollback and after a write, read or delete of its own on that
  key that threw once the lock was granted: the error handler of those calls releases
  the lock. The statement leaves aside one kind of call, about which it says nothing: a
  lock request on the key by another transaction that is itself among the holders (other
  than a shared request on a shared lock).
\<close>

theorem lock_retained:
  assumes h: "holdsLock (lockManager s) k t"
    and p: "perform s c = (r, s')"
    and nc: "c \<noteq> Commit t" and nr: "c \<noteq> Rollback t"
    and f: "\<not> failedAfterLock t k c r"
    and co: "\<not> requestByCoHolder (lockManager s) t k c"
  shows "holdsLock (lockManager s') k t"
proof (cases c)
  case (Begin txn)
  with p h show ?thesis
    by (auto split: prod.splits outcome.splits dest: beginTransaction_locks)
next
  case (Write txn k' d)
  with p obtain r0 where "write' s txn k' d = (r0, s')" "r = void r0"
    by (auto split: prod.splits)
  with write_keeps_holder[OF h this(1)] f co Write show ?thesis by simp
next
  case (Read txn k')
  with p read_keeps_holder[OF h _ _ _] f co show ?thesis by simp
next
  case (Delete txn k')
  with p obtain r0 where "delete s txn k' = (r0, s')" "r = void r0"
    by (auto split: prod.splits)
  with delete_keeps_holder[OF h this(1)] f co Delete show ?thesis by simp
next
  case (Commit txn)
  with nc have ne: "t \<noteq> txn" by simp
  from Commit p obtain r0 where "commitTransaction s txn = (r0, s')"
    by (auto split: prod.splits)
  from commitTransaction_locks[OF this] h holdsLock_releaseAll[OF h ne] show ?thesis by auto
next
  case (Rollback txn)
  with nr have ne: "t \<noteq> txn" by simp
  from Rollback p obtain r0 where "rollbackTransaction s txn = (r0, s')"
    by (auto split: prod.splits)
  from rollbackTransaction_locks[OF this] h holdsLock_releaseAll[OF h ne] show ?thesis by auto
next
  case Checkpoint
  with p h show ?thesis
    by (auto split: prod.splits dest: forceCheckpoint_locks)
next
  case (Expire txn k')
  with p h show ?thesis
    by (auto simp: holdsLock_removeLockRequest)
next
  case (ResumeWrite txn k' d)
  show ?thesis
  proof (cases "activeTransactions s txn")
    case None
    with ResumeWrite p h show ?thesis by simp
  next
    case (Some tx)
    with ResumeWrite p obtain r0 where b: "writeGranted s txn tx k' d = (r0, s')" "r = void r0"
      by (auto split: prod.splits)
    from f ResumeWrite b(2)
    have "\<not> (txn = t \<and> k' = k
             \<and> (case r0 of Failed e \<Rightarrow> e \<noteq> InvalidTransaction | _ \<Rightarrow> False))"
      by (simp add: failedAfterLock_def void_Failed)
    from body_keeps_holder[OF h writeGranted_locks[OF b(1)] this] show ?thesis .
  qed
next
  case (ResumeRead txn k')
  show ?thesis
  proof (cases "activeTransactions s txn")
    case None
    with ResumeRead p h show ?thesis by simp
  next
    case (Some tx)
    with ResumeRead p have b: "readGranted s txn tx k' = (r, s')" by simp
    from f ResumeRead
    have "\<not> (txn = t \<and> k' = k
             \<and> (case r of Failed e \<Rightarrow> e \<noteq> InvalidTransaction | _ \<Rightarrow> False))"
      by (simp add: failedAfterLock_def)
    from body_keeps_holder[OF h readGranted_locks[OF b] this] show ?thesis .
  qed
next
  case (ResumeDelete txn k')
  show ?thesis
  proof (cases "activeTransactions s txn")
    case None
    with ResumeDelete p h show ?thesis by simp
  next
    case (Some tx)
    with ResumeDelete p obtain r0 where b: "deleteGranted s txn tx k' = (r0, s')" "r = void r0"
      by (auto split: prod.splits)
    from f ResumeDelete b(2)
    have "\<not> (txn = t \<and> k' = k
             \<and> (case r0 of Failed e \<Rightarrow> e \<noteq> InvalidTransaction | _ \<Rightarrow> False))"
      by (simp add: failedAfterLock_def void_Failed)
    from body_keeps_holder[OF h deleteGranted_locks[OF b(1)] this] show ?thesis .
  qed
qed

theorem lock_retained_witness:
  "holdsLock (lockManager writtenEngine) ''k'' ''t1''
   \<and> Read ''t1'' ''k'' \<noteq> Commit ''t1''
   \<and> Read ''t1'' ''k'' \<noteq> Rollback ''t1''
   \<and> \<not> failedAfterLock ''t1'' ''k'' (Read ''t1'' ''k'')
         (fst (perform writtenEngine (Read ''t1'' ''k'')))
   \<and> \<not> requestByCoHolder (lockManager writtenEngine) ''t1'' ''k'' (Read ''t1'' ''k'')
   \<and> holdsLock (lockManager (snd (perform writtenEngine (Read ''t1'' ''k'')))) ''k'' ''t1''"
proof -
  have h: "holdsLock (lockManager writtenEngine) ''k'' ''t1''"
    by (simp add: engine_eval)
  have f: "\<not> failedAfterLock ''t1'' ''k'' (Read ''t1'' ''k'')
             (fst (perform writtenEngine (Read ''t1'' ''k'')))"
    by (simp add: failedAfterLock_def engine_eval)
  have c: "\<not> requestByCoHolder (lockManager writtenEngine) ''t1'' ''k'' (Read ''t1'' ''k'')"
    by (simp add: requestByCoHolder_def)
  have p: "perform writtenEngine (Read ''t1'' ''k'')
           = (fst (perform writtenEngine (Read ''t1'' ''k'')),
              snd (perform writtenEngine (Read ''t1'' ''k'')))"
    by simp
  from lock_retained[OF h p _ _ f c] h f c show ?thesis by simp
qed

subsection \<open>What a successful call went through\<close>

lemma currentData_lockManager [simp]:
  "currentData (s\<lparr>lockManager := lm\<rparr>) t tx k = currentData s t tx k"
  by (simp add: currentData_def Let_def)



subsection \<open>The order of the log in the states the engine reaches\<close>

text \<open>
  The engine opened on a readable log, or on none, has an ordered log and no transaction;
  every call keeps the log ordered and the transactions' start LSNs below the next LSN
  (the LSNs staying in the range where the engine's arithmetic is exact).
\<close>

lemma engineOrdered_step:
  assumes "engineOrdered s" and "advances (wal s) (wal s')"
    and "\<forall>txn tx'. activeTransactions s' txn = Some tx' \<longrightarrow>
           startLSN tx' < currentLSN (wal s')
           \<or> (\<exists>tx. activeTransactions s txn = Some tx \<and> startLSN tx' = startLSN tx)"
  shows "engineOrdered s'"
  using assms by (fastforce simp: engineOrdered_def advances_def)

lemma engineOrdered_beginTransaction:
  assumes "engineOrdered s" and "beginTransaction s txn = (r, s')"
  shows "engineOrdered s'"
proof -
  obtain x w where w: "writeLog (wal s) (logRecord BEGIN txn None JUndefined JUndefined) = (x, w)"
    by (cases "writeLog (wal s) (logRecord BEGIN txn None JUndefined JUndefined)")
  show ?thesis
  proof (rule engineOrdered_step[OF assms(1)])
    show "advances (wal s) (wal s')"
      using assms(2) w advances_writeLog[OF w]
      by (auto simp: beginTransaction_def split: sum.splits)
    show "\<forall>txn tx'. activeTransactions s' txn = Some tx' \<longrightarrow>
           startLSN tx' < currentLSN (wal s')
           \<or> (\<exists>tx. activeTransactions s txn = Some tx \<and> startLSN tx' = startLSN tx)"
      using assms(2) w currentLSN_writeLog_result[of "wal s" _ _ w]
      by (auto simp: beginTransaction_def split: sum.splits if_splits)
  qed
qed

lemma engineOrdered_lockManager [simp]:
  "engineOrdered (s\<lparr> lockManager := lm \<rparr>) = engineOrdered s"
  by (simp add: engineOrdered_def)

lemma engineOrdered_writeGranted:
  assumes "engineOrdered s" and "activeTransactions s txn = Some tx"
    and "writeGranted s txn tx k d = (r, s')"
  shows "engineOrdered s'"
proof (rule engineOrdered_step[OF assms(1)])
  show "advances (wal s) (wal s')"
    using assms(3)
    by (auto simp: writeGranted_def Let_def advances_refl
        split: sum.splits prod.splits dest: advances_writeLog)
  show "\<forall>t tx'. activeTransactions s' t = Some tx' \<longrightarrow>
           startLSN tx' < currentLSN (wal s')
           \<or> (\<exists>tx. activeTransactions s t = Some tx \<and> startLSN tx' = startLSN tx)"
    using assms(2,3)
    by (auto simp: writeGranted_def Let_def split: sum.splits prod.splits if_splits)
qed

lemma engineOrdered_readGranted:
  assumes "engineOrdered s" and "readGranted s txn tx k = (r, s')"
  shows "engineOrdered s'"
  using assms
  by (auto simp: readGranted_def Let_def split: if_splits option.splits fileContent.splits)

lemma engineOrdered_deleteGranted:
  assumes "engineOrdered s" and "activeTransactions s txn = Some tx"
    and "deleteGranted s txn tx k = (r, s')"
  shows "engineOrdered s'"
proof (rule engineOrdered_step[OF assms(1)])
  show "advances (wal s) (wal s')"
    using assms(3)
    by (auto simp: deleteGranted_def Let_def advances_refl
        split: sum.splits prod.splits dest: advances_writeLog)
  show "\<forall>t tx'. activeTransactions s' t = Some tx' \<longrightarrow>
           startLSN tx' < currentLSN (wal s')
           \<or> (\<exists>tx. activeTransactions s t = Some tx \<and> startLSN tx' = startLSN tx)"
    using assms(2,3)
    by (auto simp: deleteGranted_def Let_def split: sum.splits prod.splits if_splits)
qed

lemma engineOrdered_rollbackTransaction:
  assumes "engineOrdered s" and "rollbackTransaction s txn = (r, s')"
  shows "engineOrdered s'"
proof (rule engineOrdered_step[OF assms(1)])
  show "advances (wal s) (wal s')"
    using assms(2)
    by (auto simp: rollbackTransaction_def advances_refl
        split: option.splits sum.splits prod.splits dest: advances_writeLog)
  show "\<forall>t tx'. activeTransactions s' t = Some tx' \<longrightarrow>
           startLSN tx' < currentLSN (wal s')
           \<or> (\<exists>tx. activeTransactions s t = Some tx \<and> startLSN tx' = startLSN tx)"
    using assms(2)
    by (auto simp: rollbackTransaction_def
        split: option.splits sum.splits prod.splits if_splits)
qed

lemma engineOrdered_commitAttempt:
  assumes "engineOrdered s" and "activeTransactions s txn = Some tx"
    and "commitAttempt s txn tx = (r, s')"
  shows "engineOrdered s'"
proof (rule engineOrdered_step[OF assms(1)])
  show "advances (wal s) (wal s')"
    using assms(3) advances_clearCommittedTransaction
    by (auto simp: commitAttempt_def Let_def
        split: option.splits sum.splits prod.splits
        dest!: advances_writeLog advances_flushBuffer intro: advances_trans)
  show "\<forall>t tx'. activeTransactions s' t = Some tx' \<longrightarrow>
           startLSN tx' < currentLSN (wal s')
           \<or> (\<exists>tx. activeTransactions s t = Some tx \<and> startLSN tx' = startLSN tx)"
    using assms(2,3)
    by (auto simp: commitAttempt_def Let_def
        split: option.splits sum.splits prod.splits if_splits)
qed

lemma engineOrdered_commitTransaction:
  assumes "engineOrdered s" and "commitTransaction s txn = (r, s')"
  shows "engineOrdered s'"
proof (cases "activeTransactions s txn")
  case None
  with assms show ?thesis by (simp add: commitTransaction_def)
next
  case (Some tx)
  obtain e s1 where a: "commitAttempt s txn tx = (e, s1)" by (cases "commitAttempt s txn tx")
  note o1 = engineOrdered_commitAttempt[OF assms(1) Some a]
  obtain r2 s2 where b: "rollbackTransaction s1 txn = (r2, s2)"
    by (cases "rollbackTransaction s1 txn")
  note o2 = engineOrdered_rollbackTransaction[OF o1 b]
  from assms Some a b o1 o2 show ?thesis
    by (auto simp: commitTransaction_def split: if_splits option.splits outcome.splits)
qed

lemma engineOrdered_forceCheckpoint:
  assumes "engineOrdered s" and "forceCheckpoint s = (r, s')"
  shows "engineOrdered s'"
proof (rule engineOrdered_step[OF assms(1)])
  show "advances (wal s) (wal s')"
    using assms(2)
    by (auto simp: forceCheckpoint_def
        split: option.splits sum.splits prod.splits
        dest!: advances_writeLog advances_flushBuffer intro: advances_trans)
  show "\<forall>t tx'. activeTransactions s' t = Some tx' \<longrightarrow>
           startLSN tx' < currentLSN (wal s')
           \<or> (\<exists>tx. activeTransactions s t = Some tx \<and> startLSN tx' = startLSN tx)"
    using assms(2)
    by (auto simp: forceCheckpoint_def split: option.splits sum.splits prod.splits)
qed

lemma engineOrdered_openEngine: "engineOrdered (openEngine False limit faults file fs)"
  by (simp add: engineOrdered_def openEngine_def Let_def walOrdered_initializeWAL)

lemma engineOrdered_perform:
  assumes "engineOrdered s" and "perform s c = (r, s')"
  shows "engineOrdered s'"
proof (cases c)
  case (Begin txn)
  with assms show ?thesis
    by (auto split: prod.splits outcome.splits dest: engineOrdered_beginTransaction)
next
  case (Write txn k d)
  with assms show ?thesis
    by (auto simp: write'_def split: prod.splits option.splits if_splits bool.splits
        dest: engineOrdered_writeGranted[rotated 2])
next
  case (Read txn k)
  with assms show ?thesis
    by (auto simp: read_def split: prod.splits option.splits if_splits bool.splits
        dest: engineOrdered_readGranted[rotated])
next
  case (Delete txn k)
  with assms show ?thesis
    by (auto simp: delete_def split: prod.splits option.splits if_splits bool.splits
        dest: engineOrdered_deleteGranted[rotated 2])
next
  case (Commit txn)
  with assms show ?thesis
    by (auto split: prod.splits dest: engineOrdered_commitTransaction)
next
  case (Rollback txn)
  with assms show ?thesis
    by (auto split: prod.splits dest: engineOrdered_rollbackTransaction)
next
  case Checkpoint
  with assms show ?thesis
    by (auto split: prod.splits dest: engineOrdered_forceCheckpoint)
next
  case (Expire txn k)
  with assms show ?thesis by auto
next
  case (ResumeWrite txn k d)
  with assms show ?thesis
    by (auto split: prod.splits option.splits dest: engineOrdered_writeGranted)
next
  case (ResumeRead txn k)
  with assms show ?thesis
    by (auto split: prod.splits option.splits dest: engineOrdered_readGranted)
next
  case (ResumeDelete txn k)
  with assms show ?thesis
    by (auto split: prod.splits option.splits dest: engineOrdered_deleteGranted)
qed

subsection \<open>Calls on a transaction that is not active\<close>




subsection \<open>What a call that reaches the log went through\<close>

text \<open>
  The entries a scan selects for a transaction and a key: when the log file can be read,
  the transaction's WRITE and DELETE entries for the key that pass the bound of the start
  LSN, in the order of their LSNs; none when the file exists and reading it throws.
\<close>

lemma set_transactionEntries:
  "\<not> unreadable w \<Longrightarrow>
     set (transactionEntries w tx t k) =
       {e \<in> set (chronological w). fromBound (Some (startLSN tx)) e \<and> transactionId e = t
          \<and> key e = Some k \<and> (operation e = WRITE \<or> operation e = DELETE)}"
  by (auto simp: transactionEntries_def set_getLogEntries)

lemma sorted_transactionEntries: "sorted (map lsn (transactionEntries w tx t k))"
  unfolding transactionEntries_def
  using sorted_getLogEntries[of w "Some (startLSN tx)"]
  by (simp add: sorted_map sorted_wrt_filter)

lemma transactionEntries_unreadable:
  "logFile w \<noteq> None \<Longrightarrow> unreadable w \<Longrightarrow> transactionEntries w tx t k = []"
  by (simp add: transactionEntries_def getLogEntries_unreadable)












subsection \<open>Before-images\<close>





subsection \<open>Reading one's own write\<close>




subsection \<open>The current value when nothing is pending\<close>





end
